theory Spec2Isabelle
  imports Complex_Main
begin

section \<open>Flow categorizer\<close>

text \<open>
  Both the query endpoint (\<^verbatim>\<open>app/api/flow/route.ts\<close>, \<^verbatim>\<open>getFlowCategory\<close>) and the
  overlay component (the tileset variant of \<^verbatim>\<open>StreamflowMap\<close>) carry their own copy of
  the categorizer. Each is a chain of early returns on \<^verbatim>\<open>cms < t\<close>; the result is one
  of six string literals. JavaScript numbers are modelled as reals: rounding and the
  value NaN (on which every comparison is false) are outside this model.
\<close>

definition getFlowCategory_route :: "real \<Rightarrow> string" where
  "getFlowCategory_route cms =
     (if cms < 1 then ''very_low''
      else if cms < 10 then ''low''
      else if cms < 50 then ''moderate''
      else if cms < 200 then ''high''
      else if cms < 1000 then ''very_high''
      else ''extreme'')"

definition getFlowCategory_client :: "real \<Rightarrow> string" where
  "getFlowCategory_client cms =
     (if cms < 1 then ''very_low''
      else if cms < 10 then ''low''
      else if cms < 50 then ''moderate''
      else if cms < 200 then ''high''
      else if cms < 1000 then ''very_high''
      else ''extreme'')"

text \<open>
  The six categories in the order of the colour scale \<^verbatim>\<open>FLOW_COLORS\<close>
  (green, low, to dark red, high). The severity of a category is its position in
  this list; a string that is no category gets the position past the end.
\<close>

definition FLOW_CATEGORIES :: "string list" where
  "FLOW_CATEGORIES =
     [''very_low'', ''low'', ''moderate'', ''high'', ''very_high'', ''extreme'']"

fun position :: "string \<Rightarrow> string list \<Rightarrow> nat" where
  "position c [] = 0"
| "position c (d # ds) = (if c = d then 0 else Suc (position c ds))"

definition severity :: "string \<Rightarrow> nat" where
  "severity c = position c FLOW_CATEGORIES"

section \<open>Direct-query component: adaptive query planner\<close>

text \<open>
  \<^verbatim>\<open>fetchFlowDataInner\<close> of \<^verbatim>\<open>components/StreamflowMap.tsx\<close> reads the map's visible
  bounds and zoom and derives the query parameters. The limit is assigned by four
  statements in sequence, the later ones overwriting the earlier.
\<close>

record Bounds =
  west :: real
  south :: real
  east :: real
  north :: real

record Viewport =
  bounds :: Bounds
  zoom :: real

record QuerySpec =
  bbox :: Bounds
  limit :: nat

definition zoom_limit :: "real \<Rightarrow> nat" where
  "zoom_limit z =
     (let l0 = 2000;
          l1 = (if z \<ge> 8 then 5000 else l0);
          l2 = (if z \<ge> 10 then 8000 else l1);
          l3 = (if z < 6 then 1000 else l2)
      in l3)"

definition plan :: "Viewport \<Rightarrow> QuerySpec" where
  "plan v =
     \<lparr> bbox = \<lparr> west = west (bounds v), south = south (bounds v),
                 east = east (bounds v), north = north (bounds v) \<rparr>,
       limit = zoom_limit (zoom v) \<rparr>"

section \<open>Direct-query component: fetch cycle, debounce and events\<close>

text \<open>
  The feature properties of a query response (the geometry is carried along
  untouched and is left out), and the two shapes of JSON document the endpoint
  sends: a feature collection, or the object \<^verbatim>\<open>{error: ...}\<close> of its failure path,
  which has no \<^verbatim>\<open>features\<close> property.
\<close>

record FlowFeature =
  comid :: nat
  streamflow_cms :: real
  velocity_ms :: real
  name :: "string option"
  stream_order :: nat
  flow_category :: string

datatype FlowData = FeatureCollection "FlowFeature list" | ErrorObject string

text \<open>
  How one \<^verbatim>\<open>fetch\<close> ends: the promise rejects (network failure); a response
  arrives whose body is not JSON, so \<^verbatim>\<open>response.json()\<close> rejects; or a response
  arrives with a status and a JSON body. \<^verbatim>\<open>fetch\<close> resolves on every status, and
  the component never reads \<^verbatim>\<open>response.ok\<close>.
\<close>

datatype fetch_outcome =
    NetworkError
  | NotJson nat
  | Body nat FlowData

record Stats =
  count :: nat
  maxFlow :: real

text \<open>
  The map handle as \<^verbatim>\<open>fetchFlowDataInner\<close> sees it: \<^verbatim>\<open>getBounds()\<close> may be null,
  \<^verbatim>\<open>getZoom()\<close> is a number.
\<close>

record MapView =
  getBounds :: "Bounds option"
  getZoom :: real

text \<open>
  The component's state: the React state cells \<^verbatim>\<open>flowData\<close>, \<^verbatim>\<open>loading\<close>,
  \<^verbatim>\<open>lastUpdate\<close> and \<^verbatim>\<open>stats\<close>; the map behind \<^verbatim>\<open>mapRef\<close> (\<open>None\<close> while the
  ref is unset); the \<^verbatim>\<open>timer\<close> variable of the \<^verbatim>\<open>debounce\<close> closure, as the deadline
  of the pending timeout; the clock in milliseconds; and the requests sent so far,
  each with the time it was sent, oldest first. A request is known by its position
  in \<open>requests\<close>; \<open>answered\<close> lists the positions whose fetch has ended. The code
  itself keeps no such numbering: nothing in the state tells requests apart.
\<close>

record direct_state =
  flowData :: "FlowData option"
  loading :: bool
  lastUpdate :: "nat option"
  stats :: Stats
  mapRef :: "MapView option"
  timer :: "nat option"
  now :: nat
  requests :: "(nat \<times> QuerySpec) list"
  answered :: "nat list"

definition initial_direct :: "MapView option \<Rightarrow> direct_state" where
  "initial_direct m =
     \<lparr> flowData = None, loading = False, lastUpdate = None,
       stats = \<lparr> count = 0, maxFlow = 0 \<rparr>, mapRef = m, timer = None, now = 0,
       requests = [], answered = [] \<rparr>"

text \<open>
  \<^verbatim>\<open>Math.max(...xs)\<close>: the largest argument; on no argument it is minus infinity,
  which is \<open>None\<close> here.
\<close>

fun Math_max :: "real list \<Rightarrow> real option" where
  "Math_max [] = None"
| "Math_max (x # xs) = Some (fold max xs x)"

text \<open>
  \<^verbatim>\<open>fetchFlowDataInner\<close> up to its first \<^verbatim>\<open>await\<close>: the two early returns, the
  query parameters, \<^verbatim>\<open>setLoading(true)\<close>, and the request sent.
\<close>

definition fetchFlowDataInner_begin :: "direct_state \<Rightarrow> direct_state" where
  "fetchFlowDataInner_begin s =
     (case mapRef s of
        None \<Rightarrow> s
      | Some m \<Rightarrow>
          (case getBounds m of
             None \<Rightarrow> s
           | Some b \<Rightarrow>
               s\<lparr> loading := True,
                  requests := requests s @ [(now s, plan \<lparr> bounds = b, zoom = getZoom m \<rparr>)] \<rparr>))"

text \<open>
  \<^verbatim>\<open>fetchFlowDataInner\<close> from the \<^verbatim>\<open>await\<close> on. A rejected fetch or an unparsable
  body goes to \<^verbatim>\<open>catch\<close>, which only logs to the console. A parsed body is stored
  by \<^verbatim>\<open>setFlowData\<close> and \<^verbatim>\<open>setLastUpdate\<close> before anything of it is read; the
  statistics are set only under the guard \<^verbatim>\<open>data.features.length > 0\<close>. On a body
  without \<^verbatim>\<open>features\<close> the guard itself throws, after the two setters have run.
  \<^verbatim>\<open>finally\<close> clears \<^verbatim>\<open>loading\<close> on every path.
\<close>

definition fetchFlowDataInner_end :: "fetch_outcome \<Rightarrow> direct_state \<Rightarrow> direct_state" where
  "fetchFlowDataInner_end out s =
     (case out of
        NetworkError \<Rightarrow> s\<lparr> loading := False \<rparr>
      | NotJson st \<Rightarrow> s\<lparr> loading := False \<rparr>
      | Body st (ErrorObject e) \<Rightarrow>
          s\<lparr> flowData := Some (ErrorObject e), lastUpdate := Some (now s),
             loading := False \<rparr>
      | Body st (FeatureCollection fs) \<Rightarrow>
          (let s1 = s\<lparr> flowData := Some (FeatureCollection fs),
                        lastUpdate := Some (now s) \<rparr>;
               s2 = (if length fs > 0
                     then (case Math_max (map streamflow_cms fs) of
                             Some m \<Rightarrow> s1\<lparr> stats := \<lparr> count = length fs, maxFlow = m \<rparr> \<rparr>
                           | None \<Rightarrow> s1)
                     else s1)
           in s2\<lparr> loading := False \<rparr>))"

text \<open>
  The function \<^verbatim>\<open>debounce(fetchFlowDataInner, 300)\<close> returns: a call clears the
  pending timeout and sets a new one, \<^verbatim>\<open>ms\<close> from now.
\<close>

definition DEBOUNCE_MS :: nat where
  "DEBOUNCE_MS = 300"

definition debounced_call :: "nat \<Rightarrow> direct_state \<Rightarrow> direct_state" where
  "debounced_call ms s = s\<lparr> timer := Some (now s + ms) \<rparr>"

definition fetchFlowData :: "direct_state \<Rightarrow> direct_state" where
  "fetchFlowData s = debounced_call DEBOUNCE_MS s"

text \<open>
  \<^verbatim>\<open>handleMoveEnd\<close>: the map has settled on a new view, which \<^verbatim>\<open>getBounds\<close> and
  \<^verbatim>\<open>getZoom\<close> report from now on, and the debounced fetch is called. (The copy of
  the view state kept by \<^verbatim>\<open>setViewport\<close> is read by no code of the fetch cycle and
  is left out.)
\<close>

definition handleMoveEnd :: "MapView \<Rightarrow> direct_state \<Rightarrow> direct_state" where
  "handleMoveEnd m s = fetchFlowData (s\<lparr> mapRef := Some m \<rparr>)"

text \<open>
  Time passing: the clock moves on by \<open>d\<close> milliseconds; a pending timeout whose
  deadline is reached runs \<^verbatim>\<open>fetchFlowDataInner\<close> at its deadline.
\<close>

definition elapse :: "nat \<Rightarrow> direct_state \<Rightarrow> direct_state" where
  "elapse d s =
     (let t = now s + d in
      case timer s of
        None \<Rightarrow> s\<lparr> now := t \<rparr>
      | Some deadline \<Rightarrow>
          if deadline \<le> t
          then (fetchFlowDataInner_begin (s\<lparr> timer := None, now := deadline \<rparr>))\<lparr> now := t \<rparr>
          else s\<lparr> now := t \<rparr>)"

text \<open>
  The events of the component: the map settles (\<^verbatim>\<open>onMoveEnd\<close>); the timeout of
  the mount effect calls the debounced fetch; time passes; the fetch of the request
  at position \<open>k\<close> ends with an outcome. The network decides the order in which
  fetches end. An outcome for a request that was never sent, or that has ended
  already, is no event of the system and changes nothing.
\<close>

datatype direct_event =
    MoveEnd MapView
  | InitialFetch
  | Elapse nat
  | Arrive nat fetch_outcome

definition direct_step :: "direct_event \<Rightarrow> direct_state \<Rightarrow> direct_state" where
  "direct_step ev s =
     (case ev of
        MoveEnd m \<Rightarrow> handleMoveEnd m s
      | InitialFetch \<Rightarrow> fetchFlowData s
      | Elapse d \<Rightarrow> elapse d s
      | Arrive k out \<Rightarrow>
          if k < length (requests s) \<and> k \<notin> set (answered s)
          then fetchFlowDataInner_end out (s\<lparr> answered := answered s @ [k] \<rparr>)
          else s)"

definition direct_run :: "direct_event list \<Rightarrow> direct_state \<Rightarrow> direct_state" where
  "direct_run evs s = fold direct_step evs s"

text \<open>
  What the header shows under the title: \<^verbatim>\<open>Loading...\<close> while loading, else the
  number of streams. The direct-query component has no error state.
\<close>

datatype header_text = Loading | Streams nat | ErrorText string

definition header_direct :: "direct_state \<Rightarrow> header_text" where
  "header_direct s = (if loading s then Loading else Streams (count (stats s)))"

text \<open>A burst of settle events: each is followed by the time until the next event.\<close>

fun burst :: "(MapView \<times> nat) list \<Rightarrow> direct_event list" where
  "burst [] = []"
| "burst ((m, d) # rest) = MoveEnd m # Elapse d # burst rest"

section \<open>Overlay component: render surface and chunked apply\<close>

definition REFRESH_INTERVAL :: nat where
  "REFRESH_INTERVAL = 15 * 60 * 1000"

definition CHUNK_SIZE :: nat where
  "CHUNK_SIZE = 5000"

text \<open>The state delta \<^verbatim>\<open>{flow, category}\<close> the component writes for one feature.\<close>

record FeatureState =
  flow :: real
  category :: string

text \<open>
  Modelled from the spec: the render surface is the map engine, which is no code
  of this repository; the component uses its capabilities \<^verbatim>\<open>getSource\<close>,
  \<^verbatim>\<open>isSourceLoaded\<close> and \<^verbatim>\<open>setFeatureState\<close> for the source \<^verbatim>\<open>rivers\<close>. Following
  the spec (an id absent from the loaded surface is a miss) and the \<^verbatim>\<open>try\<close>/\<^verbatim>\<open>catch\<close>
  around the call in \<^verbatim>\<open>processChunk\<close> (whose comment reads "Feature may not be in
  tileset"), \<^verbatim>\<open>setFeatureState\<close> throws exactly on an id that is not among the
  \<open>features\<close> of the surface, and otherwise stores the delta under the id. \<open>calls\<close>
  records every call the surface received, by feature id, oldest first.
\<close>

record Surface =
  hasSource :: bool
  isSourceLoaded :: bool
  features :: "nat set"
  featureState :: "nat \<rightharpoonup> FeatureState"
  calls :: "nat list"

definition setFeatureState :: "nat \<Rightarrow> FeatureState \<Rightarrow> Surface \<Rightarrow> bool \<times> Surface" where
  "setFeatureState fid delta surf =
     (let surf' = surf\<lparr> calls := calls surf @ [fid] \<rparr> in
      if fid \<in> features surf
      then (True, surf'\<lparr> featureState := (featureState surf)(fid \<mapsto> delta) \<rparr>)
      else (False, surf'))"

text \<open>
  The live document, as far as the component reads it. \<open>sites\<close> is the sequence
  \<^verbatim>\<open>Object.entries(data.sites)\<close>, each key already converted by \<^verbatim>\<open>Number(comid)\<close>;
  it is \<open>None\<close> for a document without a \<^verbatim>\<open>sites\<close> object, on which
  \<^verbatim>\<open>Object.entries\<close> throws a TypeError.
\<close>

record LiveData =
  reference_time :: "string option"
  sites :: "(nat \<times> real) list option"

text \<open>
  The variables captured by one \<^verbatim>\<open>processChunk\<close> closure: one apply cycle.
\<close>

record chunk_job =
  entries :: "(nat \<times> real) list"
  index :: nat
  successCount :: nat
  maxFlow_job :: real

text \<open>
  The overlay component's state: its React state cells (\<^verbatim>\<open>loading\<close>,
  \<^verbatim>\<open>lastUpdate\<close>, \<^verbatim>\<open>referenceTime\<close>, \<^verbatim>\<open>stats\<close>, \<^verbatim>\<open>error\<close>); whether \<^verbatim>\<open>mapRef\<close> is
  set; the render surface; the callbacks waiting for the next animation frame,
  oldest first; the clock in milliseconds; the next tick of the interval timer
  (\<open>None\<close> before the mount effect ran); the number of \<^verbatim>\<open>sourcedata\<close> listeners
  registered; the times at which \<^verbatim>\<open>fetchLiveData\<close> was called; and how many of
  those fetches have ended.
\<close>

record overlay_state =
  loading_live :: bool
  lastUpdate_live :: "nat option"
  referenceTime :: "string option"
  stats_live :: Stats
  error :: "string option"
  mapReady :: bool
  surface :: Surface
  frames :: "chunk_job list"
  clock :: nat
  interval :: "nat option"
  listeners :: nat
  fetches :: "nat list"
  ended :: nat

definition initial_overlay :: "Surface \<Rightarrow> overlay_state" where
  "initial_overlay surf =
     \<lparr> loading_live = False, lastUpdate_live = None, referenceTime = None,
       stats_live = \<lparr> count = 0, maxFlow = 0 \<rparr>, error = None, mapReady = True,
       surface = surf, frames = [], clock = 0, interval = None, listeners = 0,
       fetches = [], ended = 0 \<rparr>"

text \<open>
  The body of the \<^verbatim>\<open>for\<close> loop of \<^verbatim>\<open>processChunk\<close> for one entry: the call, and on
  its normal return the two counters; a throw is swallowed.
\<close>

definition apply_entry ::
  "nat \<times> real \<Rightarrow> Surface \<times> nat \<times> real \<Rightarrow> Surface \<times> nat \<times> real" where
  "apply_entry e acc =
     (case (e, acc) of
        ((comid', streamflow), (surf, sc, mf)) \<Rightarrow>
          (case setFeatureState comid'
                  \<lparr> flow = streamflow, category = getFlowCategory_client streamflow \<rparr> surf of
             (True, surf') \<Rightarrow> (surf', sc + 1, if streamflow > mf then streamflow else mf)
           | (False, surf') \<Rightarrow> (surf', sc, mf)))"

text \<open>
  \<^verbatim>\<open>processChunk\<close>: one slice, from \<^verbatim>\<open>index\<close> to \<^verbatim>\<open>end\<close>; then either the closure
  is handed to \<^verbatim>\<open>requestAnimationFrame\<close> or the statistics are published.
\<close>

definition processChunk :: "chunk_job \<Rightarrow> overlay_state \<Rightarrow> overlay_state" where
  "processChunk job s =
     (let end' = min (index job + CHUNK_SIZE) (length (entries job));
          (surf, sc, mf) =
            fold (\<lambda>i. apply_entry (entries job ! i)) [index job..<end']
              (surface s, successCount job, maxFlow_job job);
          job' = job\<lparr> index := end', successCount := sc, maxFlow_job := mf \<rparr>
      in if index job' < length (entries job')
         then s\<lparr> surface := surf, frames := frames s @ [job'] \<rparr>
         else s\<lparr> surface := surf, stats_live := \<lparr> count = sc, maxFlow = mf \<rparr> \<rparr>)"

text \<open>
  \<^verbatim>\<open>applyFeatureStates\<close>: the two early returns, then the first slice at once.
  \<open>Inl\<close> carries the message of the error thrown to the caller.
\<close>

definition applyFeatureStates :: "LiveData \<Rightarrow> overlay_state \<Rightarrow> string + overlay_state" where
  "applyFeatureStates data s =
     (if \<not> mapReady s then Inr s
      else if \<not> hasSource (surface s) then Inr s
      else (case sites data of
              None \<Rightarrow> Inl ''Cannot convert undefined or null to object''
            | Some es \<Rightarrow>
                Inr (processChunk
                       \<lparr> entries = es, index = 0, successCount = 0, maxFlow_job = 0 \<rparr> s)))"

text \<open>
  One animation frame: the callbacks queued so far run in order; what they queue
  runs in the next frame.
\<close>

definition frame :: "overlay_state \<Rightarrow> overlay_state" where
  "frame s = fold processChunk (frames s) (s\<lparr> frames := [] \<rparr>)"

text \<open>
  One call of \<^verbatim>\<open>setFeatureState\<close> for an entry, as the surface sees it, and the
  running maximum the loop keeps over the flows it applied.
\<close>

definition touch :: "nat \<times> real \<Rightarrow> Surface \<Rightarrow> Surface" where
  "touch e surf =
     snd (setFeatureState (fst e) \<lparr> flow = snd e, category = getFlowCategory_client (snd e) \<rparr> surf)"

definition flows_max :: "(nat \<times> real) list \<Rightarrow> real \<Rightarrow> real" where
  "flows_max es m = fold (\<lambda>e m. max m (snd e)) es m"

section \<open>Overlay component: live fetch and refresh scheduler\<close>

text \<open>
  How the fetch of the live document ends: the promise rejects with an error
  message; or a response arrives with a status, whose body either fails to parse
  (with the parser's message) or is a document. \<^verbatim>\<open>response.ok\<close> is the status being
  in 200..299.
\<close>

datatype live_body = Unparsable string | Parsed LiveData

datatype live_outcome = Rejected string | Response nat live_body

definition response_ok :: "nat \<Rightarrow> bool" where
  "response_ok st = (200 \<le> st \<and> st \<le> 299)"

function decimal :: "nat \<Rightarrow> string" where
  "decimal n =
     (if n < 10 then [''0123456789'' ! n]
      else decimal (n div 10) @ [''0123456789'' ! (n mod 10)])"
  by pat_completeness auto
termination
  by (relation "measure id") auto

declare decimal.simps [simp del]

definition fetchLiveData_begin :: "overlay_state \<Rightarrow> overlay_state" where
  "fetchLiveData_begin s =
     s\<lparr> loading_live := True, error := None, fetches := fetches s @ [clock s] \<rparr>"

text \<open>
  \<^verbatim>\<open>fetchLiveData\<close> from the \<^verbatim>\<open>await\<close> on. Everything thrown inside \<^verbatim>\<open>try\<close> is an
  \<^verbatim>\<open>Error\<close>, so \<^verbatim>\<open>catch\<close> stores its message; \<^verbatim>\<open>finally\<close> clears \<^verbatim>\<open>loading\<close>.
\<close>

definition fetchLiveData_end :: "live_outcome \<Rightarrow> overlay_state \<Rightarrow> overlay_state" where
  "fetchLiveData_end out s =
     (case out of
        Rejected msg \<Rightarrow> s\<lparr> error := Some msg, loading_live := False \<rparr>
      | Response st body \<Rightarrow>
          if \<not> response_ok st
          then s\<lparr> error := Some (''HTTP '' @ decimal st), loading_live := False \<rparr>
          else (case body of
                  Unparsable msg \<Rightarrow> s\<lparr> error := Some msg, loading_live := False \<rparr>
                | Parsed data \<Rightarrow>
                    (let s1 = s\<lparr> lastUpdate_live := Some (clock s),
                                  referenceTime := reference_time data \<rparr>
                     in case applyFeatureStates data s1 of
                          Inl msg \<Rightarrow> s1\<lparr> error := Some msg, loading_live := False \<rparr>
                        | Inr s2 \<Rightarrow> s2\<lparr> loading_live := False \<rparr>)))"

text \<open>The mount effect: \<^verbatim>\<open>setInterval(fetchLiveData, REFRESH_INTERVAL)\<close>.\<close>

definition mount :: "overlay_state \<Rightarrow> overlay_state" where
  "mount s = s\<lparr> interval := Some (clock s + REFRESH_INTERVAL) \<rparr>"

text \<open>
  \<^verbatim>\<open>handleMapLoad\<close>: registers the \<^verbatim>\<open>sourcedata\<close> listener, then \<^verbatim>\<open>checkAndFetch\<close>.
\<close>

definition handleMapLoad :: "overlay_state \<Rightarrow> overlay_state" where
  "handleMapLoad s =
     (if \<not> mapReady s then s
      else (let s1 = s\<lparr> listeners := listeners s + 1 \<rparr> in
            if hasSource (surface s1) \<and> isSourceLoaded (surface s1)
            then fetchLiveData_begin s1 else s1))"

text \<open>
  A \<^verbatim>\<open>sourcedata\<close> event of the engine, with its \<^verbatim>\<open>sourceId\<close> and \<^verbatim>\<open>isSourceLoaded\<close>:
  every registered listener calls \<^verbatim>\<open>fetchLiveData\<close> when the event is for \<^verbatim>\<open>rivers\<close>
  and reports the source loaded. On the engine's side an event for \<^verbatim>\<open>rivers\<close>
  means the source exists and is loaded as the event says.
\<close>

definition sourcedata :: "string \<Rightarrow> bool \<Rightarrow> overlay_state \<Rightarrow> overlay_state" where
  "sourcedata sourceId loaded s =
     (let s1 = (if sourceId = ''rivers''
                then s\<lparr> surface := (surface s)\<lparr> hasSource := True, isSourceLoaded := loaded \<rparr> \<rparr>
                else s)
      in if sourceId = ''rivers'' \<and> loaded
         then (fetchLiveData_begin ^^ listeners s1) s1 else s1)"

text \<open>
  Time passing: the interval timer ticks at its due time and every
  \<^verbatim>\<open>REFRESH_INTERVAL\<close> after it, as long as the tick is not after the new time;
  each tick calls \<^verbatim>\<open>fetchLiveData\<close>.
\<close>

definition tick_times :: "nat \<Rightarrow> nat \<Rightarrow> nat list" where
  "tick_times due t =
     (if due \<le> t
      then map (\<lambda>k. due + k * REFRESH_INTERVAL) [0..<(t - due) div REFRESH_INTERVAL + 1]
      else [])"

definition elapse_live :: "nat \<Rightarrow> overlay_state \<Rightarrow> overlay_state" where
  "elapse_live d s =
     (let t = clock s + d in
      case interval s of
        None \<Rightarrow> s\<lparr> clock := t \<rparr>
      | Some due \<Rightarrow>
          (let ts = tick_times due t;
               s' = fold (\<lambda>tk st. fetchLiveData_begin (st\<lparr> clock := tk \<rparr>)) ts s
           in s'\<lparr> clock := t, interval := Some (due + length ts * REFRESH_INTERVAL) \<rparr>))"

text \<open>
  The events of the overlay component: the component mounts; the map's \<^verbatim>\<open>onLoad\<close>
  fires; the engine emits \<^verbatim>\<open>sourcedata\<close>; time passes; an animation frame runs; the
  oldest fetch that has not ended yet ends with an outcome (an outcome when no fetch
  is open changes nothing). The call of \<^verbatim>\<open>applyFeatureStates\<close> on a document, which
  \<^verbatim>\<open>fetchLiveData\<close> makes when its fetch succeeds, is also an event of its own,
  \<open>Apply\<close>, so that an apply cycle can be followed without the fetch around it.
\<close>

datatype overlay_event =
    Mount
  | MapLoad
  | SourceData string bool
  | ElapseLive nat
  | Frame
  | ArriveLive live_outcome
  | Apply LiveData

definition overlay_step :: "overlay_event \<Rightarrow> overlay_state \<Rightarrow> overlay_state" where
  "overlay_step ev s =
     (case ev of
        Mount \<Rightarrow> mount s
      | MapLoad \<Rightarrow> handleMapLoad s
      | SourceData sourceId loaded \<Rightarrow> sourcedata sourceId loaded s
      | ElapseLive d \<Rightarrow> elapse_live d s
      | Frame \<Rightarrow> frame s
      | ArriveLive out \<Rightarrow>
          if ended s < length (fetches s)
          then fetchLiveData_end out (s\<lparr> ended := ended s + 1 \<rparr>)
          else s
      | Apply data \<Rightarrow> (case applyFeatureStates data s of Inl msg \<Rightarrow> s | Inr s' \<Rightarrow> s'))"

definition overlay_run :: "overlay_event list \<Rightarrow> overlay_state \<Rightarrow> overlay_state" where
  "overlay_run evs s = fold overlay_step evs s"


text \<open>
  What one pass over a list of entries does to a surface, and which entries it
  applies: the reference for the chunked loop.
\<close>

definition applied :: "Surface \<Rightarrow> (nat \<times> real) list \<Rightarrow> (nat \<times> real) list" where
  "applied surf es = filter (\<lambda>e. fst e \<in> features surf) es"

definition sweep :: "(nat \<times> real) list \<Rightarrow> Surface \<Rightarrow> Surface" where
  "sweep es surf = fst (fold apply_entry es (surf, 0, 0))"

text \<open>
  Names for the stages of an apply cycle over the entries \<open>es\<close>: its \<open>k\<close>-th slice
  (slices count from 0; the call of \<^verbatim>\<open>applyFeatureStates\<close> runs slice 0, every
  frame after it the next one); the closure it has queued after \<open>k\<close> slices; the
  turn in which it runs its last slice; and the statistics it publishes then.
\<close>

definition slice :: "nat \<Rightarrow> (nat \<times> real) list \<Rightarrow> (nat \<times> real) list" where
  "slice k es = take CHUNK_SIZE (drop (k * CHUNK_SIZE) es)"




text \<open>
  A run of \<^verbatim>\<open>sourcedata\<close> events of the engine, each given by its source id and
  its loaded flag.
\<close>

definition engine_events :: "(string \<times> bool) list \<Rightarrow> overlay_event list" where
  "engine_events ns = map (\<lambda>(sourceId, loaded). SourceData sourceId loaded) ns"

section \<open>Query endpoint\<close>

text \<open>
  \<^verbatim>\<open>GET\<close> of \<^verbatim>\<open>app/api/flow/route.ts\<close>. The query string is the function from a key
  to its first value, as \<^verbatim>\<open>searchParams.get\<close> reads it (\<open>None\<close> for null). A
  JavaScript number is a real, NaN or an infinity (rounding is outside the model).
\<close>

type_synonym SearchParams = "string \<Rightarrow> string option"

datatype number = NaN | Num real | PosInfinity | NegInfinity

text \<open>
  The two parsers the endpoint calls, after the language standard, for ASCII
  input: leading white space is skipped, then a sign, then the longest prefix that
  is a numeral; what follows is ignored; with no digit the result is NaN.
  \<^verbatim>\<open>parseInt\<close> without a radix reads a hexadecimal numeral after \<^verbatim>\<open>0x\<close>;
  \<^verbatim>\<open>parseFloat\<close> reads a fraction, an exponent and \<^verbatim>\<open>Infinity\<close>.
\<close>

definition is_space :: "char \<Rightarrow> bool" where
  "is_space c = (c \<in> {CHR 0x20, CHR 0x09, CHR 0x0A, CHR 0x0B, CHR 0x0C, CHR 0x0D})"

definition is_digit :: "char \<Rightarrow> bool" where
  "is_digit c = (c \<in> set ''0123456789'')"

definition is_hex :: "char \<Rightarrow> bool" where
  "is_hex c = (c \<in> set ''0123456789abcdefABCDEF'')"

fun char_position :: "char \<Rightarrow> string \<Rightarrow> nat" where
  "char_position c [] = 0"
| "char_position c (d # ds) = (if c = d then 0 else Suc (char_position c ds))"

definition digits_value :: "string \<Rightarrow> nat" where
  "digits_value ds = fold (\<lambda>c n. 10 * n + char_position c ''0123456789'') ds 0"

definition hex_value :: "string \<Rightarrow> nat" where
  "hex_value ds =
     fold (\<lambda>c n. 16 * n +
                  (if c \<in> set ''ABCDEF'' then 10 + char_position c ''ABCDEF''
                   else char_position c ''0123456789abcdef'')) ds 0"

definition parse_sign :: "string \<Rightarrow> bool \<times> string" where
  "parse_sign s =
     (case s of
        [] \<Rightarrow> (False, [])
      | c # cs \<Rightarrow>
          if c = CHR ''-'' then (True, cs)
          else if c = CHR ''+'' then (False, cs)
          else (False, s))"

definition parseInt :: "string \<Rightarrow> number" where
  "parseInt s =
     (let (neg, r) = parse_sign (dropWhile is_space s);
          hex = (take 2 r = ''0x'' \<or> take 2 r = ''0X'');
          ds = (if hex then takeWhile is_hex (drop 2 r) else takeWhile is_digit r);
          n = (if hex then hex_value ds else digits_value ds)
      in if ds = [] then NaN else Num (if neg then - real n else real n))"

definition parse_exponent :: "string \<Rightarrow> int" where
  "parse_exponent r =
     (case r of
        [] \<Rightarrow> 0
      | c # cs \<Rightarrow>
          if c = CHR ''e'' \<or> c = CHR ''E''
          then (let (neg, r') = parse_sign cs;
                    ds = takeWhile is_digit r'
                in if ds = [] then 0
                   else if neg then - int (digits_value ds) else int (digits_value ds))
          else 0)"

definition parseFloat :: "string \<Rightarrow> number" where
  "parseFloat s =
     (let (neg, r) = parse_sign (dropWhile is_space s) in
      if take 8 r = ''Infinity'' then (if neg then NegInfinity else PosInfinity)
      else
        (let ip = takeWhile is_digit r;
             r1 = drop (length ip) r;
             dot = (take 1 r1 = ''.'');
             fp = (if dot then takeWhile is_digit (drop 1 r1) else []);
             r2 = (if dot then drop (length fp) (drop 1 r1) else r1);
             ex = parse_exponent r2;
             mantissa = real (digits_value ip) + real (digits_value fp) / 10 ^ length fp;
             scaled = (if ex \<ge> 0 then mantissa * 10 ^ nat ex else mantissa / 10 ^ nat (- ex))
         in if ip = [] \<and> fp = [] then NaN
            else Num (if neg then - scaled else scaled)))"

text \<open>
  \<^verbatim>\<open>searchParams.get(key) || fallback\<close>: the fallback stands in for null and for
  the empty string, the two falsy values a parameter can have.
\<close>

definition get_or :: "SearchParams \<Rightarrow> string \<Rightarrow> string \<Rightarrow> string" where
  "get_or searchParams key fallback =
     (case searchParams key of
        None \<Rightarrow> fallback
      | Some v \<Rightarrow> if v = [] then fallback else v)"

text \<open>The five values bound to the placeholders of the SQL query.\<close>

record QueryArgs =
  arg_west :: number
  arg_south :: number
  arg_east :: number
  arg_north :: number
  arg_limit :: number

definition query_args :: "SearchParams \<Rightarrow> QueryArgs" where
  "query_args searchParams =
     \<lparr> arg_west = parseFloat (get_or searchParams ''west'' ''-180''),
       arg_south = parseFloat (get_or searchParams ''south'' ''-90''),
       arg_east = parseFloat (get_or searchParams ''east'' ''180''),
       arg_north = parseFloat (get_or searchParams ''north'' ''90''),
       arg_limit = parseInt (get_or searchParams ''limit'' ''5000'') \<rparr>"

text \<open>
  A row of the query result (without its geometry). The database behind
  \<^verbatim>\<open>pool.query\<close> is no code of this repository: it is a parameter, a function from
  the arguments to the rows, or to \<open>None\<close> when the query throws. The endpoint
  answers with a status and a JSON document.
\<close>

record Row =
  row_comid :: nat
  row_streamflow_cms :: real
  row_velocity_ms :: real
  gnis_name :: "string option"
  row_stream_order :: nat

definition feature_of_row :: "Row \<Rightarrow> FlowFeature" where
  "feature_of_row row =
     \<lparr> comid = row_comid row,
       streamflow_cms = row_streamflow_cms row,
       velocity_ms = row_velocity_ms row,
       name = gnis_name row,
       stream_order = row_stream_order row,
       flow_category = getFlowCategory_route (row_streamflow_cms row) \<rparr>"

definition GET :: "(QueryArgs \<Rightarrow> Row list option) \<Rightarrow> SearchParams \<Rightarrow> nat \<times> FlowData" where
  "GET pool_query searchParams =
     (case pool_query (query_args searchParams) of
        Some rows \<Rightarrow> (200, FeatureCollection (map feature_of_row rows))
      | None \<Rightarrow> (500, ErrorObject ''Failed to fetch flow data''))"

definition WORLD_DEFAULTS :: QueryArgs where
  "WORLD_DEFAULTS =
     \<lparr> arg_west = Num (- 180), arg_south = Num (- 90), arg_east = Num 180,
       arg_north = Num 90, arg_limit = Num 5000 \<rparr>"

section \<open>What a failed fetch must leave alone\<close>




section \<open>Example data\<close>

text \<open>
  Two map views (the first one is the end-to-end scenario's bounding box over
  Vermont, at zoom 9), two features, and the race of two requests whose responses
  arrive in the reverse order.
\<close>

definition viewA :: MapView where
  "viewA = \<lparr> getBounds = Some \<lparr> west = -73, south = 44, east = -72, north = 45 \<rparr>, getZoom = 9 \<rparr>"

definition viewB :: MapView where
  "viewB = \<lparr> getBounds = Some \<lparr> west = -115, south = 46, east = -113, north = 47 \<rparr>, getZoom = 7 \<rparr>"

definition featA :: FlowFeature where
  "featA = \<lparr> comid = 101, streamflow_cms = 150, velocity_ms = 1, name = None,
             stream_order = 3, flow_category = ''high'' \<rparr>"

definition featB :: FlowFeature where
  "featB = \<lparr> comid = 202, streamflow_cms = 12, velocity_ms = 1, name = None,
             stream_order = 2, flow_category = ''moderate'' \<rparr>"

definition race_events :: "direct_event list" where
  "race_events =
     [MoveEnd viewA, Elapse 300, MoveEnd viewB, Elapse 300,
      Arrive 1 (Body 200 (FeatureCollection [featB])),
      Arrive 0 (Body 200 (FeatureCollection [featA]))]"

text \<open>
  The live-feed scenario: a surface whose tileset holds feature 101 only, and a
  feed for the features 101 and 102; a feed with a negative flow; and two feeds for
  two overlapping apply cycles on a surface that holds every feature, the first of
  5001 entries (two slices), the second of one entry.
\<close>

definition surface101 :: Surface where
  "surface101 =
     \<lparr> hasSource = True, isSourceLoaded = True, features = {101},
       featureState = Map.empty, calls = [] \<rparr>"

definition feed :: LiveData where
  "feed = \<lparr> reference_time = Some ''2025-01-01T00:00:00Z'',
            sites = Some [(101, 1 / 2), (102, 1500)] \<rparr>"

definition feed_negative :: LiveData where
  "feed_negative = \<lparr> reference_time = Some ''2025-01-01T00:00:00Z'',
                     sites = Some [(101, - 2)] \<rparr>"

definition surface_all :: Surface where
  "surface_all =
     \<lparr> hasSource = True, isSourceLoaded = True, features = UNIV,
       featureState = Map.empty, calls = [] \<rparr>"





text \<open>
  Two fetch cycles of the direct-query component, the second answered with an
  empty collection.
\<close>

definition empty_events :: "direct_event list" where
  "empty_events =
     [MoveEnd viewA, Elapse 300, Arrive 0 (Body 200 (FeatureCollection [featA])),
      MoveEnd viewB, Elapse 300, Arrive 1 (Body 200 (FeatureCollection []))]"

text \<open>A surface whose source has not been added yet.\<close>

definition surface_unloaded :: Surface where
  "surface_unloaded =
     \<lparr> hasSource = False, isSourceLoaded = False, features = {101},
       featureState = Map.empty, calls = [] \<rparr>"


definition server_error_events :: "direct_event list" where
  "server_error_events =
     [MoveEnd viewA, Elapse 300, Arrive 0 (Body 200 (FeatureCollection [featA])),
      MoveEnd viewB, Elapse 300,
      Arrive 1 (Body 500 (ErrorObject ''Failed to fetch flow data''))]"

section \<open>Properties of the categorizer\<close>

lemma getFlowCategory_same: "getFlowCategory_client f = getFlowCategory_route f"
  by (simp add: getFlowCategory_client_def getFlowCategory_route_def)

lemma severity_values:
  "severity ''very_low'' = 0" "severity ''low'' = 1" "severity ''moderate'' = 2"
  "severity ''high'' = 3" "severity ''very_high'' = 4" "severity ''extreme'' = 5"
  by (simp_all add: severity_def FLOW_CATEGORIES_def)

lemma getFlowCategory_mono:
  "f \<le> g \<Longrightarrow> severity (getFlowCategory_route f) \<le> severity (getFlowCategory_route g)"
  by (simp add: getFlowCategory_route_def severity_values)

text \<open>
  Claim C7. The categorizer is total, returns one of the six categories, sends every
  flow below 1 (so every zero or negative flow) to \<open>very_low\<close>, follows the threshold
  table \<open>{1, 10, 50, 200, 1000}\<close>, never decreases in severity when the flow grows, and
  the endpoint's copy and the client's copy agree on every flow.
\<close>

theorem getFlowCategory_table_monotone:
  "getFlowCategory_route f \<in> set FLOW_CATEGORIES
   \<and> (f \<le> 0 \<longrightarrow> getFlowCategory_route f = ''very_low'')
   \<and> (f < 1 \<longrightarrow> getFlowCategory_route f = ''very_low'')
   \<and> (1 \<le> f \<and> f < 10 \<longrightarrow> getFlowCategory_route f = ''low'')
   \<and> (10 \<le> f \<and> f < 50 \<longrightarrow> getFlowCategory_route f = ''moderate'')
   \<and> (50 \<le> f \<and> f < 200 \<longrightarrow> getFlowCategory_route f = ''high'')
   \<and> (200 \<le> f \<and> f < 1000 \<longrightarrow> getFlowCategory_route f = ''very_high'')
   \<and> (1000 \<le> f \<longrightarrow> getFlowCategory_route f = ''extreme'')
   \<and> (f \<le> g \<longrightarrow>
        severity (getFlowCategory_route f) \<le> severity (getFlowCategory_route g))
   \<and> getFlowCategory_client f = getFlowCategory_route f"
proof -
  have range: "getFlowCategory_route f \<in> set FLOW_CATEGORIES"
    by (simp add: getFlowCategory_route_def FLOW_CATEGORIES_def)
  have table:
    "f \<le> 0 \<longrightarrow> getFlowCategory_route f = ''very_low''"
    "f < 1 \<longrightarrow> getFlowCategory_route f = ''very_low''"
    "1 \<le> f \<and> f < 10 \<longrightarrow> getFlowCategory_route f = ''low''"
    "10 \<le> f \<and> f < 50 \<longrightarrow> getFlowCategory_route f = ''moderate''"
    "50 \<le> f \<and> f < 200 \<longrightarrow> getFlowCategory_route f = ''high''"
    "200 \<le> f \<and> f < 1000 \<longrightarrow> getFlowCategory_route f = ''very_high''"
    "1000 \<le> f \<longrightarrow> getFlowCategory_route f = ''extreme''"
    by (simp_all add: getFlowCategory_route_def)
  from range table getFlowCategory_mono [of f g] getFlowCategory_same [of f]
  show ?thesis by blast
qed

theorem getFlowCategory_table_monotone_witness:
  "getFlowCategory_route 150 \<in> set FLOW_CATEGORIES
   \<and> getFlowCategory_route 150 = ''high''
   \<and> getFlowCategory_route (-3) = ''very_low''
   \<and> getFlowCategory_route 0 = ''very_low''
   \<and> severity (getFlowCategory_route 150) \<le> severity (getFlowCategory_route 1500)
   \<and> getFlowCategory_client 150 = getFlowCategory_route 150"
  using getFlowCategory_table_monotone [of 150 1500]
    getFlowCategory_table_monotone [of "-3" 0]
    getFlowCategory_table_monotone [of 0 0]
    getFlowCategory_table_monotone [of 1500 1500]
  by (simp add: severity_values FLOW_CATEGORIES_def)

section \<open>Properties of the query planner\<close>

text \<open>
  Claim C6. For every viewport the planned limit is the step function of the zoom
  (1000 below 6, 2000 from 6 up to 8, 5000 from 8 up to 10, 8000 from 10 on), and the
  planned bounding box is the viewport's visible rectangle, side by side.
\<close>

theorem plan_limit_table_bbox:
  "limit (plan v) =
     (if zoom v < 6 then 1000 else if zoom v < 8 then 2000
      else if zoom v < 10 then 5000 else 8000)
   \<and> bbox (plan v) = bounds v
   \<and> west (bbox (plan v)) = west (bounds v)
   \<and> south (bbox (plan v)) = south (bounds v)
   \<and> east (bbox (plan v)) = east (bounds v)
   \<and> north (bbox (plan v)) = north (bounds v)"
  by (simp add: plan_def zoom_limit_def)

section \<open>Properties of the debounce\<close>

lemma burst_append: "burst (xs @ ys) = burst xs @ burst ys"
  by (induction xs rule: burst.induct) simp_all

lemma direct_run_append: "direct_run (xs @ ys) s = direct_run ys (direct_run xs s)"
  by (simp add: direct_run_def)

lemma direct_run_Cons: "direct_run (e # es) s = direct_run es (direct_step e s)"
  by (simp add: direct_run_def)

lemma direct_run_Nil: "direct_run [] s = s"
  by (simp add: direct_run_def)

lemma settle_then_short_gap:
  "d < DEBOUNCE_MS \<Longrightarrow>
   elapse d (handleMoveEnd m s) =
     s\<lparr> mapRef := Some m, timer := Some (now s + DEBOUNCE_MS), now := now s + d \<rparr>"
  by (simp add: elapse_def handleMoveEnd_def fetchFlowData_def debounced_call_def)

lemma settle_then_quiet:
  "DEBOUNCE_MS \<le> d \<Longrightarrow> getBounds m = Some b \<Longrightarrow>
   elapse d (handleMoveEnd m s) =
     s\<lparr> mapRef := Some m, timer := None, now := now s + d, loading := True,
        requests := requests s @
          [(now s + DEBOUNCE_MS, plan \<lparr> bounds = b, zoom = getZoom m \<rparr>)] \<rparr>"
  by (simp add: elapse_def handleMoveEnd_def fetchFlowData_def debounced_call_def
      fetchFlowDataInner_begin_def)

lemma burst_within_window:
  "\<forall>(m, d) \<in> set pre. d < DEBOUNCE_MS \<Longrightarrow>
   requests (direct_run (burst pre) s) = requests s
   \<and> now (direct_run (burst pre) s) = now s + sum_list (map snd pre)
   \<and> loading (direct_run (burst pre) s) = loading s
   \<and> flowData (direct_run (burst pre) s) = flowData s"
proof (induction pre arbitrary: s)
  case Nil
  then show ?case by (simp add: direct_run_Nil)
next
  case (Cons a pre)
  obtain m d where a: "a = (m, d)" by (cases a)
  with Cons.prems have d: "d < DEBOUNCE_MS" and rest: "\<forall>(m, d) \<in> set pre. d < DEBOUNCE_MS"
    by auto
  have "direct_run (burst (a # pre)) s = direct_run (burst pre) (elapse d (handleMoveEnd m s))"
    by (simp add: a direct_run_Cons direct_step_def)
  with Cons.IH [OF rest, of "elapse d (handleMoveEnd m s)"] settle_then_short_gap [OF d, of m s]
  show ?case by (simp add: a)
qed

text \<open>
  Claim C8. A burst of settle events, each followed by the next within less than
  the 300 ms window, and then a quiet time of at least the window: exactly one
  request is added to those sent before, it is sent 300 ms after the last event,
  and its parameters are those planned from the view of the last event. (The map
  must report bounds for that view; with \<^verbatim>\<open>getBounds()\<close> null the code returns
  before sending.)
\<close>

theorem debounce_burst_one_query:
  assumes window: "\<forall>(m, d) \<in> set pre. d < DEBOUNCE_MS"
    and quiet: "DEBOUNCE_MS \<le> q"
    and view: "getBounds m = Some b"
  shows "requests (direct_run (burst (pre @ [(m, q)])) s) =
           requests s @
             [(now s + sum_list (map snd pre) + DEBOUNCE_MS,
               plan \<lparr> bounds = b, zoom = getZoom m \<rparr>)]"
proof -
  let ?s' = "direct_run (burst pre) s"
  have "direct_run (burst (pre @ [(m, q)])) s = elapse q (handleMoveEnd m ?s')"
    by (simp add: burst_append direct_run_append direct_run_Cons direct_run_Nil direct_step_def)
  with settle_then_quiet [OF quiet view, of ?s'] burst_within_window [OF window, of s]
  show ?thesis by simp
qed

theorem debounce_burst_one_query_witness:
  "requests (direct_run (burst [(viewB, 100), (viewB, 50), (viewA, 300)]) (initial_direct None)) =
     [(450, \<lparr> bbox = \<lparr> west = -73, south = 44, east = -72, north = 45 \<rparr>, limit = 5000 \<rparr>)]"
  using debounce_burst_one_query [of "[(viewB, 100), (viewB, 50)]" 300 viewA
      "\<lparr> west = -73, south = 44, east = -72, north = 45 \<rparr>" "initial_direct None"]
  by (simp add: DEBOUNCE_MS_def initial_direct_def plan_def zoom_limit_def viewA_def)

section \<open>Responses that arrive out of order\<close>

text \<open>
  Claim C1, as the code has it. The component keeps no generation counter and
  checks nothing when a response arrives: of two requests still open, the one sent
  first (\<open>g1\<close>) and the one sent later (\<open>g2\<close>), when the response to \<open>g2\<close> arrives
  first and the response to \<open>g1\<close> after it, both with a JSON body, the data set
  displayed in the end is the one of \<open>g1\<close>: the late result replaces the newer one.
\<close>

theorem late_response_overwrites:
  assumes "g1 < g2" and "g2 < length (requests s)"
    and "g1 \<notin> set (answered s)" and "g2 \<notin> set (answered s)"
  shows "flowData (direct_run [Arrive g2 (Body st2 d2), Arrive g1 (Body st1 d1)] s) = Some d1"
  using assms
  by (cases d1; cases d2)
     (simp_all add: direct_run_def direct_step_def fetchFlowDataInner_end_def Let_def
        split: option.splits)

theorem late_response_overwrites_witness:
  "flowData (direct_run [Arrive 1 (Body 200 (FeatureCollection [featB])),
                         Arrive 0 (Body 200 (FeatureCollection [featA]))]
      (direct_run [MoveEnd viewA, Elapse 300, MoveEnd viewB, Elapse 300] (initial_direct None)))
   = Some (FeatureCollection [featA])"
  using late_response_overwrites [of 0 1
      "direct_run [MoveEnd viewA, Elapse 300, MoveEnd viewB, Elapse 300] (initial_direct None)"
      200 "FeatureCollection [featB]" 200 "FeatureCollection [featA]"]
  by (simp add: direct_run_def direct_step_def handleMoveEnd_def
      fetchFlowData_def debounced_call_def DEBOUNCE_MS_def elapse_def
      fetchFlowDataInner_begin_def initial_direct_def viewA_def viewB_def)

text \<open>
  The claim as the spec states it fails: the request for \<open>viewA\<close> is sent first, the
  request for \<open>viewB\<close> second; the second is answered first. In the end the map shows
  the features of the first request, not those of the second.
\<close>

theorem stale_response_counterexample:
  "map snd (requests (direct_run race_events (initial_direct None))) =
     [plan \<lparr> bounds = \<lparr> west = -73, south = 44, east = -72, north = 45 \<rparr>, zoom = 9 \<rparr>,
      plan \<lparr> bounds = \<lparr> west = -115, south = 46, east = -113, north = 47 \<rparr>, zoom = 7 \<rparr>]
   \<and> flowData (direct_run race_events (initial_direct None)) = Some (FeatureCollection [featA])
   \<and> flowData (direct_run race_events (initial_direct None)) \<noteq> Some (FeatureCollection [featB])"
  by (simp add: race_events_def direct_run_def direct_step_def handleMoveEnd_def
      fetchFlowData_def debounced_call_def DEBOUNCE_MS_def elapse_def
      fetchFlowDataInner_begin_def fetchFlowDataInner_end_def initial_direct_def
      viewA_def viewB_def featA_def featB_def)

section \<open>Properties of the chunked apply\<close>

lemma touch_fields:
  "features (touch e surf) = features surf"
  "hasSource (touch e surf) = hasSource surf"
  "isSourceLoaded (touch e surf) = isSourceLoaded surf"
  "calls (touch e surf) = calls surf @ [fst e]"
  by (simp_all add: touch_def setFeatureState_def Let_def)

lemma apply_entry_touch:
  "apply_entry e (surf, sc, mf) =
     (touch e surf,
      if fst e \<in> features surf then sc + 1 else sc,
      if fst e \<in> features surf then max mf (snd e) else mf)"
  by (cases e) (auto simp: apply_entry_def touch_def setFeatureState_def Let_def max_def)

lemma fold_touch_fields:
  "features (fold touch es surf) = features surf"
  "hasSource (fold touch es surf) = hasSource surf"
  "isSourceLoaded (fold touch es surf) = isSourceLoaded surf"
  "calls (fold touch es surf) = calls surf @ map fst es"
  by (induction es arbitrary: surf) (simp_all add: touch_fields)

lemma fold_apply_entry:
  "fold apply_entry es (surf, sc, mf) =
     (fold touch es surf, sc + length (applied surf es), flows_max (applied surf es) mf)"
proof (induction es arbitrary: surf sc mf)
  case Nil
  show ?case by (simp add: applied_def flows_max_def)
next
  case (Cons e es)
  have same: "applied (touch e surf) es = applied surf es"
    by (simp add: applied_def touch_fields)
  show ?case
    by (simp add: apply_entry_touch Cons.IH same) (simp add: applied_def flows_max_def)
qed

lemma sweep_fold_touch: "sweep es surf = fold touch es surf"
  by (simp add: sweep_def fold_apply_entry)

lemma sweep_fields:
  "features (sweep es surf) = features surf"
  "hasSource (sweep es surf) = hasSource surf"
  "isSourceLoaded (sweep es surf) = isSourceLoaded surf"
  "calls (sweep es surf) = calls surf @ map fst es"
  by (simp_all add: sweep_fold_touch fold_touch_fields)

lemma sweep_append: "sweep (xs @ ys) surf = sweep ys (sweep xs surf)"
  by (simp add: sweep_fold_touch)

lemma sweep_Nil: "sweep [] surf = surf"
  by (simp add: sweep_fold_touch)

lemma applied_sweep: "applied (sweep xs surf) es = applied surf es"
  by (simp add: applied_def sweep_fields)

lemma applied_append: "applied surf (xs @ ys) = applied surf xs @ applied surf ys"
  by (simp add: applied_def)

lemma flows_max_append: "flows_max (xs @ ys) m = flows_max ys (flows_max xs m)"
  by (simp add: flows_max_def)

lemma nth_slice:
  "e \<le> length es \<Longrightarrow> map ((!) es) [i..<e] = take (e - i) (drop i es)"
  by (rule nth_equalityI) (auto simp: nth_map_upt)

lemma fold_slice:
  assumes "e \<le> length es"
  shows "fold (\<lambda>i. apply_entry (es ! i)) [i..<e] acc = fold apply_entry (take (e - i) (drop i es)) acc"
proof -
  have "fold (\<lambda>i. apply_entry (es ! i)) [i..<e] acc = fold apply_entry (map ((!) es) [i..<e]) acc"
    by (simp add: fold_map comp_def)
  with nth_slice [OF assms, of i] show ?thesis by simp
qed

lemma processChunk_more:
  assumes "index job + CHUNK_SIZE < length (entries job)"
  shows "processChunk job s =
     s\<lparr> surface := sweep (take CHUNK_SIZE (drop (index job) (entries job))) (surface s),
        frames := frames s @
          [job\<lparr> index := index job + CHUNK_SIZE,
                successCount := successCount job +
                  length (applied (surface s) (take CHUNK_SIZE (drop (index job) (entries job)))),
                maxFlow_job :=
                  flows_max (applied (surface s) (take CHUNK_SIZE (drop (index job) (entries job))))
                    (maxFlow_job job) \<rparr>] \<rparr>"
proof -
  have e: "min (index job + CHUNK_SIZE) (length (entries job)) = index job + CHUNK_SIZE"
    using assms by simp
  show ?thesis
    using assms
    by (simp add: processChunk_def e fold_slice fold_apply_entry sweep_fold_touch)
qed

lemma processChunk_last:
  assumes "length (entries job) \<le> index job + CHUNK_SIZE"
  shows "processChunk job s =
     s\<lparr> surface := sweep (drop (index job) (entries job)) (surface s),
        stats_live :=
          \<lparr> count = successCount job + length (applied (surface s) (drop (index job) (entries job))),
            maxFlow = flows_max (applied (surface s) (drop (index job) (entries job)))
                        (maxFlow_job job) \<rparr> \<rparr>"
proof -
  have e: "min (index job + CHUNK_SIZE) (length (entries job)) = length (entries job)"
    using assms by simp
  show ?thesis
    by (simp add: processChunk_def e fold_slice fold_apply_entry sweep_fold_touch)
qed

lemma frame_idle: "frames s = [] \<Longrightarrow> frame s = s"
  by (simp add: frame_def)

lemma frame_single: "frames s = [job] \<Longrightarrow> frame s = processChunk job (s\<lparr> frames := [] \<rparr>)"
  by (simp add: frame_def)

lemma frames_idle: "frames s = [] \<Longrightarrow> (frame ^^ j) s = s"
  by (induction j) (simp_all add: frame_idle)

lemma slice_step:
  "take (Suc j * CHUNK_SIZE) (drop i es) =
     take (j * CHUNK_SIZE) (drop i es) @ take CHUNK_SIZE (drop (i + j * CHUNK_SIZE) es)"
proof -
  have "take (j * CHUNK_SIZE + CHUNK_SIZE) (drop i es) =
          take (j * CHUNK_SIZE) (drop i es) @ take CHUNK_SIZE (drop (j * CHUNK_SIZE) (drop i es))"
    by (rule take_add)
  then show ?thesis by (simp add: add.commute)
qed

lemma slice_rest:
  "drop i es = take (j * CHUNK_SIZE) (drop i es) @ drop (i + j * CHUNK_SIZE) es"
proof -
  have "drop (j * CHUNK_SIZE) (drop i es) = drop (i + j * CHUNK_SIZE) es"
    by (simp add: add.commute)
  then show ?thesis
    by (metis append_take_drop_id)
qed

lemma frames_run:
  assumes one: "frames s = [job]" and open_job: "index job < length (entries job)"
  shows "(frame ^^ j) s =
     (if index job + j * CHUNK_SIZE < length (entries job)
      then s\<lparr> surface := sweep (take (j * CHUNK_SIZE) (drop (index job) (entries job))) (surface s),
              frames :=
                [job\<lparr> index := index job + j * CHUNK_SIZE,
                      successCount := successCount job +
                        length (applied (surface s)
                                  (take (j * CHUNK_SIZE) (drop (index job) (entries job)))),
                      maxFlow_job :=
                        flows_max (applied (surface s)
                                     (take (j * CHUNK_SIZE) (drop (index job) (entries job))))
                          (maxFlow_job job) \<rparr>] \<rparr>
      else s\<lparr> surface := sweep (drop (index job) (entries job)) (surface s),
              frames := [],
              stats_live :=
                \<lparr> count = successCount job +
                    length (applied (surface s) (drop (index job) (entries job))),
                  maxFlow = flows_max (applied (surface s) (drop (index job) (entries job)))
                              (maxFlow_job job) \<rparr> \<rparr>)"
proof (induction j)
  case 0
  from one open_job show ?case by (simp add: sweep_Nil applied_def flows_max_def)
next
  case (Suc j)
  let ?i = "index job" and ?es = "entries job"
  show ?case
  proof (cases "?i + j * CHUNK_SIZE < length ?es")
    case False
    then have done': "\<not> ?i + Suc j * CHUNK_SIZE < length ?es" by simp
    from False Suc.IH have "frames ((frame ^^ j) s) = []" by simp
    then have "frame ((frame ^^ j) s) = (frame ^^ j) s" by (rule frame_idle)
    with False done' Suc.IH show ?thesis by simp
  next
    case True
    let ?pre = "take (j * CHUNK_SIZE) (drop ?i ?es)"
    let ?jobj = "job\<lparr> index := ?i + j * CHUNK_SIZE,
                      successCount := successCount job + length (applied (surface s) ?pre),
                      maxFlow_job := flows_max (applied (surface s) ?pre) (maxFlow_job job) \<rparr>"
    let ?sj = "s\<lparr> surface := sweep ?pre (surface s), frames := [?jobj] \<rparr>"
    from True Suc.IH have sj: "(frame ^^ j) s = ?sj" by simp
    have step: "frame ?sj = processChunk ?jobj (?sj\<lparr> frames := [] \<rparr>)"
      by (rule frame_single) simp
    show ?thesis
    proof (cases "?i + Suc j * CHUNK_SIZE < length ?es")
      case more: True
      then have "index ?jobj + CHUNK_SIZE < length (entries ?jobj)" by (simp add: add.assoc)
      from processChunk_more [OF this, of "?sj\<lparr> frames := [] \<rparr>"] step sj
      have "(frame ^^ Suc j) s =
              s\<lparr> surface := sweep (take CHUNK_SIZE (drop (?i + j * CHUNK_SIZE) ?es))
                               (sweep ?pre (surface s)),
                 frames :=
                   [job\<lparr> index := ?i + j * CHUNK_SIZE + CHUNK_SIZE,
                         successCount := successCount job + length (applied (surface s) ?pre) +
                           length (applied (surface s)
                                     (take CHUNK_SIZE (drop (?i + j * CHUNK_SIZE) ?es))),
                         maxFlow_job :=
                           flows_max (applied (surface s)
                                        (take CHUNK_SIZE (drop (?i + j * CHUNK_SIZE) ?es)))
                             (flows_max (applied (surface s) ?pre) (maxFlow_job job)) \<rparr>] \<rparr>"
        by (simp add: applied_sweep del: mult_Suc)
      also have "\<dots> =
              s\<lparr> surface := sweep (?pre @ take CHUNK_SIZE (drop (?i + j * CHUNK_SIZE) ?es))
                               (surface s),
                 frames :=
                   [job\<lparr> index := ?i + j * CHUNK_SIZE + CHUNK_SIZE,
                         successCount := successCount job +
                           length (applied (surface s)
                                     (?pre @ take CHUNK_SIZE (drop (?i + j * CHUNK_SIZE) ?es))),
                         maxFlow_job :=
                           flows_max (applied (surface s)
                                        (?pre @ take CHUNK_SIZE (drop (?i + j * CHUNK_SIZE) ?es)))
                             (maxFlow_job job) \<rparr>] \<rparr>"
        by (simp only: sweep_append applied_append flows_max_append length_append add.assoc)
      finally show ?thesis
        using more slice_step [of j ?i ?es] by (simp add: add.assoc add.commute)
    next
      case last: False
      then have "length (entries ?jobj) \<le> index ?jobj + CHUNK_SIZE" by (simp add: add.assoc)
      from processChunk_last [OF this, of "?sj\<lparr> frames := [] \<rparr>"] step sj last
      have "(frame ^^ Suc j) s =
              s\<lparr> surface := sweep (drop (?i + j * CHUNK_SIZE) ?es) (sweep ?pre (surface s)),
                 frames := [],
                 stats_live :=
                   \<lparr> count = successCount job + length (applied (surface s) ?pre) +
                       length (applied (surface s) (drop (?i + j * CHUNK_SIZE) ?es)),
                     maxFlow = flows_max (applied (surface s) (drop (?i + j * CHUNK_SIZE) ?es))
                                 (flows_max (applied (surface s) ?pre) (maxFlow_job job)) \<rparr> \<rparr>"
        by (simp add: applied_sweep del: mult_Suc)
      also have "\<dots> =
              s\<lparr> surface := sweep (?pre @ drop (?i + j * CHUNK_SIZE) ?es) (surface s),
                 frames := [],
                 stats_live :=
                   \<lparr> count = successCount job +
                       length (applied (surface s) (?pre @ drop (?i + j * CHUNK_SIZE) ?es)),
                     maxFlow = flows_max (applied (surface s) (?pre @ drop (?i + j * CHUNK_SIZE) ?es))
                                 (maxFlow_job job) \<rparr> \<rparr>"
        by (simp only: sweep_append applied_append flows_max_append length_append add.assoc)
      finally show ?thesis
        using last slice_rest [of ?i ?es j] by simp
    qed
  qed
qed

lemma flows_max_Max: "flows_max es m = Max (insert m (snd ` set es))"
proof -
  have "(\<lambda>e m. max m (snd e)) = (\<lambda>e::nat \<times> real. max (snd e))"
    by (simp add: fun_eq_iff max.commute)
  then have "flows_max es m = fold max (map snd es) m"
    by (simp add: flows_max_def fold_map comp_def)
  also have "\<dots> = Max (set (m # map snd es))"
    by (simp only: Max.set_eq_fold)
  finally show ?thesis by simp
qed

lemma overlay_run_Cons: "overlay_run (ev # evs) s = overlay_run evs (overlay_step ev s)"
  by (simp add: overlay_run_def)

lemma overlay_run_frames: "overlay_run (replicate j Frame) s = (frame ^^ j) s"
proof (induction j arbitrary: s)
  case 0
  show ?case by (simp add: overlay_run_def)
next
  case (Suc j)
  have "overlay_run (replicate (Suc j) Frame) s = overlay_run (replicate j Frame) (frame s)"
    by (simp add: overlay_run_Cons overlay_step_def)
  with Suc.IH [of "frame s"] show ?case by (simp add: funpow_swap1)
qed

lemma apply_step:
  "mapReady s \<Longrightarrow> hasSource (surface s) \<Longrightarrow> sites data = Some es \<Longrightarrow>
   overlay_step (Apply data) s =
     processChunk \<lparr> entries = es, index = 0, successCount = 0, maxFlow_job = 0 \<rparr> s"
  by (simp add: overlay_step_def applyFeatureStates_def)


text \<open>One cycle, running alone.\<close>

lemma single_cycle:
  assumes ready: "mapReady s" "hasSource (surface s)"
    and idle: "frames s = []"
    and doc: "sites data = Some es"
  shows "overlay_run (Apply data # replicate j Frame) s =
     (if Suc j * CHUNK_SIZE < length es
      then s\<lparr> surface := sweep (take (Suc j * CHUNK_SIZE) es) (surface s),
              frames :=
                [\<lparr> entries = es, index = Suc j * CHUNK_SIZE,
                   successCount = length (applied (surface s) (take (Suc j * CHUNK_SIZE) es)),
                   maxFlow_job = flows_max (applied (surface s) (take (Suc j * CHUNK_SIZE) es)) 0 \<rparr>] \<rparr>
      else s\<lparr> surface := sweep es (surface s),
              frames := [],
              stats_live :=
                \<lparr> count = length (applied (surface s) es),
                  maxFlow = flows_max (applied (surface s) es) 0 \<rparr> \<rparr>)"
proof -
  let ?job = "\<lparr> entries = es, index = 0, successCount = 0, maxFlow_job = 0 \<rparr>"
  let ?s0 = "s\<lparr> frames := [?job] \<rparr>"
  have s0: "?s0\<lparr> frames := [] \<rparr> = s" using idle by simp
  have "frame ?s0 = processChunk ?job (?s0\<lparr> frames := [] \<rparr>)"
    by (rule frame_single) simp
  with s0 have first: "processChunk ?job s = frame ?s0" by simp
  have run: "overlay_run (Apply data # replicate j Frame) s = (frame ^^ Suc j) ?s0"
    by (simp add: overlay_run_Cons overlay_run_frames apply_step [OF ready doc] first
        funpow_swap1)
  show ?thesis
  proof (cases "es = []")
    case True
    then have last: "length (entries ?job) \<le> index ?job + CHUNK_SIZE" by simp
    have "frames (processChunk ?job s) = []"
      using idle by (simp add: processChunk_last [OF last])
    then have "(frame ^^ j) (processChunk ?job s) = processChunk ?job s"
      by (rule frames_idle)
    then have "overlay_run (Apply data # replicate j Frame) s = processChunk ?job s"
      by (simp add: overlay_run_Cons overlay_run_frames apply_step [OF ready doc])
    moreover have "processChunk ?job s =
        s\<lparr> surface := sweep es (surface s), frames := [],
           stats_live := \<lparr> count = length (applied (surface s) es),
                           maxFlow = flows_max (applied (surface s) es) 0 \<rparr> \<rparr>"
      using idle by (simp add: processChunk_last [OF last])
    ultimately show ?thesis using True by simp
  next
    case False
    have one: "frames ?s0 = [?job]" by simp
    have open_job: "index ?job < length (entries ?job)" using False by simp
    from frames_run [OF one open_job, of "Suc j"] run
    show ?thesis by (simp del: mult_Suc funpow.simps)
  qed
qed

lemma touch_featureState:
  "featureState (touch e surf) =
     (if fst e \<in> features surf
      then (featureState surf)(fst e \<mapsto> \<lparr> flow = snd e, category = getFlowCategory_client (snd e) \<rparr>)
      else featureState surf)"
  by (simp add: touch_def setFeatureState_def Let_def)

lemma sweep_Cons: "sweep (e # es) surf = sweep es (touch e surf)"
  by (simp add: sweep_fold_touch)

lemma sweep_untouched:
  "c \<notin> fst ` set es \<Longrightarrow> featureState (sweep es surf) c = featureState surf c"
  by (induction es arbitrary: surf) (auto simp: sweep_Nil sweep_Cons touch_featureState)

lemma sweep_absent:
  "c \<notin> features surf \<Longrightarrow> featureState (sweep es surf) c = featureState surf c"
  by (induction es arbitrary: surf)
     (auto simp: sweep_Nil sweep_Cons touch_featureState touch_fields)

lemma sweep_present:
  "distinct (map fst es) \<Longrightarrow> (c, f) \<in> set es \<Longrightarrow> c \<in> features surf \<Longrightarrow>
   featureState (sweep es surf) c = Some \<lparr> flow = f, category = getFlowCategory_client f \<rparr>"
proof (induction es arbitrary: surf)
  case Nil
  then show ?case by simp
next
  case (Cons e es)
  show ?case
  proof (cases "e = (c, f)")
    case True
    with Cons.prems have "c \<notin> fst ` set es" by auto
    then have "featureState (sweep es (touch e surf)) c = featureState (touch e surf) c"
      by (rule sweep_untouched)
    with True Cons.prems show ?thesis by (simp add: sweep_Cons touch_featureState)
  next
    case False
    with Cons.prems have "(c, f) \<in> set es" "distinct (map fst es)"
      "c \<in> features (touch e surf)"
      by (auto simp: touch_fields)
    then show ?thesis using Cons.IH [of "touch e surf"] by (simp add: sweep_Cons)
  qed
qed

lemma length_applied_le: "length (applied surf es) \<le> length es"
  by (simp add: applied_def)

text \<open>
  Claim C3, as the code has it. With the map and its source present and no other
  cycle in flight, \<^verbatim>\<open>applyFeatureStates\<close> on \<open>M\<close> entries, followed by \<open>j\<close> animation
  frames, has called \<^verbatim>\<open>setFeatureState\<close> once for each of the first \<open>(j + 1) * 5000\<close>
  entries, in order and for no other: every turn handles the next 5000 entries, the
  last turn what is left. While entries remain, the statistics are not published
  and the cycle waits at index \<open>(j + 1) * 5000\<close>. Once all are handled nothing is
  left waiting; the surface is the one a single pass over the entries gives, so an
  id outside the surface was skipped and changed nothing while the entries after
  it were still handled; \<open>count\<close> is the number of entries whose id is in the
  surface, at most \<open>M\<close>; and \<open>maxFlow\<close> is the largest of 0 and the flows of those
  entries (the running maximum starts at 0), which is their maximum unless all of
  them are negative.
\<close>

theorem applyFeatureStates_chunked:
  assumes ready: "mapReady s" "hasSource (surface s)"
    and idle: "frames s = []"
    and doc: "sites data = Some es"
  shows
    "calls (surface (overlay_run (Apply data # replicate j Frame) s)) =
       calls (surface s) @ map fst (take (Suc j * CHUNK_SIZE) es)
     \<and> (Suc j * CHUNK_SIZE < length es \<longrightarrow>
          stats_live (overlay_run (Apply data # replicate j Frame) s) = stats_live s
          \<and> map index (frames (overlay_run (Apply data # replicate j Frame) s)) =
              [Suc j * CHUNK_SIZE])
     \<and> (length es \<le> Suc j * CHUNK_SIZE \<longrightarrow>
          frames (overlay_run (Apply data # replicate j Frame) s) = []
          \<and> surface (overlay_run (Apply data # replicate j Frame) s) = sweep es (surface s)
          \<and> count (stats_live (overlay_run (Apply data # replicate j Frame) s)) =
              length (applied (surface s) es)
          \<and> count (stats_live (overlay_run (Apply data # replicate j Frame) s)) \<le> length es
          \<and> maxFlow (stats_live (overlay_run (Apply data # replicate j Frame) s)) =
              Max (insert 0 (snd ` set (applied (surface s) es)))
          \<and> (\<forall>c. c \<notin> features (surface s) \<longrightarrow>
                featureState (surface (overlay_run (Apply data # replicate j Frame) s)) c =
                  featureState (surface s) c)
          \<and> (distinct (map fst es) \<longrightarrow>
               (\<forall>(c, f) \<in> set es. c \<in> features (surface s) \<longrightarrow>
                  featureState (surface (overlay_run (Apply data # replicate j Frame) s)) c =
                    Some \<lparr> flow = f, category = getFlowCategory_client f \<rparr>)))"
proof (cases "Suc j * CHUNK_SIZE < length es")
  case True
  with single_cycle [OF ready idle doc, of j] show ?thesis
    by (simp add: sweep_fields del: mult_Suc)
next
  case False
  then have all: "take (Suc j * CHUNK_SIZE) es = es" by simp
  from False single_cycle [OF ready idle doc, of j]
  have final: "overlay_run (Apply data # replicate j Frame) s =
      s\<lparr> surface := sweep es (surface s), frames := [],
         stats_live := \<lparr> count = length (applied (surface s) es),
                         maxFlow = flows_max (applied (surface s) es) 0 \<rparr> \<rparr>"
    by simp
  have present: "distinct (map fst es) \<longrightarrow>
      (\<forall>(c, f) \<in> set es. c \<in> features (surface s) \<longrightarrow>
         featureState (sweep es (surface s)) c =
           Some \<lparr> flow = f, category = getFlowCategory_client f \<rparr>)"
    using sweep_present [of es _ _ "surface s"] by blast
  from False show ?thesis
    unfolding final
    using present
    by (simp add: all sweep_fields flows_max_Max length_applied_le sweep_absent del: mult_Suc)
qed

theorem applyFeatureStates_chunked_witness:
  "calls (surface (overlay_run [Apply feed] (initial_overlay surface101))) = [101, 102]
   \<and> frames (overlay_run [Apply feed] (initial_overlay surface101)) = []
   \<and> count (stats_live (overlay_run [Apply feed] (initial_overlay surface101))) = 1
   \<and> maxFlow (stats_live (overlay_run [Apply feed] (initial_overlay surface101))) = 1 / 2
   \<and> featureState (surface (overlay_run [Apply feed] (initial_overlay surface101))) 101 =
       Some \<lparr> flow = 1 / 2, category = ''very_low'' \<rparr>
   \<and> featureState (surface (overlay_run [Apply feed] (initial_overlay surface101))) 102 = None"
proof -
  let ?s = "initial_overlay surface101"
  let ?es = "[(101, 1 / 2), (102, 1500)] :: (nat \<times> real) list"
  have ready: "mapReady ?s" "hasSource (surface ?s)"
    and idle: "frames ?s = []"
    and doc: "sites feed = Some ?es"
    by (simp_all add: initial_overlay_def surface101_def feed_def)
  have surf: "features (surface ?s) = {101}" "calls (surface ?s) = []"
    "featureState (surface ?s) = Map.empty"
    by (simp_all add: initial_overlay_def surface101_def)
  have app: "applied (surface ?s) ?es = [(101, 1 / 2)]"
    by (simp add: applied_def surf)
  have cat: "getFlowCategory_client (1 / 2) = ''very_low''"
    by (simp add: getFlowCategory_client_def)
  from applyFeatureStates_chunked [OF ready idle doc, of 0]
  show ?thesis
    by (simp add: surf app cat CHUNK_SIZE_def sweep_fields sweep_Cons sweep_Nil
        touch_featureState touch_fields)
qed

text \<open>
  The claim as the spec states it fails on a negative flow: the one entry is
  applied, and the published \<open>maxFlow\<close> is 0, not the flow of that entry.
\<close>

theorem maxFlow_negative_counterexample:
  "applied surface101 [(101, - 2)] = [(101, - 2)]
   \<and> count (stats_live (overlay_run [Apply feed_negative] (initial_overlay surface101))) = 1
   \<and> maxFlow (stats_live (overlay_run [Apply feed_negative] (initial_overlay surface101))) = 0
   \<and> maxFlow (stats_live (overlay_run [Apply feed_negative] (initial_overlay surface101))) \<noteq>
       Max (snd ` set (applied surface101 [(101, - 2)]))"
  using single_cycle [of "initial_overlay surface101" feed_negative "[(101, - 2)]" 0]
  by (simp add: initial_overlay_def surface101_def feed_negative_def CHUNK_SIZE_def applied_def
      flows_max_def)

section \<open>Overlapping apply cycles\<close>






lemma initial_overlay_fields:
  "mapReady (initial_overlay surf)" "frames (initial_overlay surf) = []"
  "surface (initial_overlay surf) = surf"
  "stats_live (initial_overlay surf) = \<lparr> count = 0, maxFlow = 0 \<rparr>"
  by (simp_all add: initial_overlay_def)






lemma take_Suc_slice:
  "take (Suc k * CHUNK_SIZE) es = take (k * CHUNK_SIZE) es @ slice k es"
  using take_add [of "k * CHUNK_SIZE" CHUNK_SIZE es] by (simp add: slice_def add.commute)







lemma overlay_run_append: "overlay_run (xs @ ys) s = overlay_run ys (overlay_run xs s)"
  by (simp add: overlay_run_def)







section \<open>Properties of the query endpoint\<close>

lemma default_strings:
  "parseFloat ''-180'' = Num (- 180)" "parseFloat ''-90'' = Num (- 90)"
  "parseFloat ''180'' = Num 180" "parseFloat ''90'' = Num 90"
  "parseInt ''5000'' = Num 5000"
  by (simp_all add: parseFloat_def parseInt_def parse_sign_def is_space_def is_digit_def
      digits_value_def parse_exponent_def)

lemma get_or_absent: "searchParams key = None \<Longrightarrow> get_or searchParams key fallback = fallback"
  by (simp add: get_or_def)

lemma query_args_empty: "query_args Map.empty = WORLD_DEFAULTS"
  by (simp add: query_args_def get_or_def default_strings WORLD_DEFAULTS_def)

text \<open>
  Claim C10. Each bounding-box parameter that is absent from the request is
  replaced by its side of the world extent, and an absent limit by 5000; a request
  with no parameter at all runs the query on the whole world with the limit 5000,
  and answers with status 200 and the rows as features whenever the query itself
  returns.
\<close>

theorem GET_defaults:
  "(searchParams ''west'' = None \<longrightarrow> arg_west (query_args searchParams) = Num (- 180))
   \<and> (searchParams ''south'' = None \<longrightarrow> arg_south (query_args searchParams) = Num (- 90))
   \<and> (searchParams ''east'' = None \<longrightarrow> arg_east (query_args searchParams) = Num 180)
   \<and> (searchParams ''north'' = None \<longrightarrow> arg_north (query_args searchParams) = Num 90)
   \<and> (searchParams ''limit'' = None \<longrightarrow> arg_limit (query_args searchParams) = Num 5000)
   \<and> query_args Map.empty = WORLD_DEFAULTS
   \<and> GET pool_query Map.empty =
       (case pool_query WORLD_DEFAULTS of
          Some rows \<Rightarrow> (200, FeatureCollection (map feature_of_row rows))
        | None \<Rightarrow> (500, ErrorObject ''Failed to fetch flow data''))"
proof -
  have fields:
    "searchParams ''west'' = None \<longrightarrow> arg_west (query_args searchParams) = Num (- 180)"
    "searchParams ''south'' = None \<longrightarrow> arg_south (query_args searchParams) = Num (- 90)"
    "searchParams ''east'' = None \<longrightarrow> arg_east (query_args searchParams) = Num 180"
    "searchParams ''north'' = None \<longrightarrow> arg_north (query_args searchParams) = Num 90"
    "searchParams ''limit'' = None \<longrightarrow> arg_limit (query_args searchParams) = Num 5000"
    by (simp_all add: query_args_def get_or_absent default_strings)
  have whole: "GET pool_query Map.empty =
       (case pool_query WORLD_DEFAULTS of
          Some rows \<Rightarrow> (200, FeatureCollection (map feature_of_row rows))
        | None \<Rightarrow> (500, ErrorObject ''Failed to fetch flow data''))"
    by (simp add: GET_def query_args_empty)
  from fields whole query_args_empty show ?thesis by blast
qed

theorem GET_defaults_witness:
  "arg_south (query_args [''west'' \<mapsto> ''-73'', ''limit'' \<mapsto> ''100'']) = Num (- 90)
   \<and> arg_east (query_args [''west'' \<mapsto> ''-73'', ''limit'' \<mapsto> ''100'']) = Num 180
   \<and> arg_north (query_args [''west'' \<mapsto> ''-73'', ''limit'' \<mapsto> ''100'']) = Num 90
   \<and> arg_west (query_args [''limit'' \<mapsto> ''100'']) = Num (- 180)
   \<and> arg_limit (query_args [''west'' \<mapsto> ''-73'']) = Num 5000
   \<and> GET (\<lambda>q. if q = WORLD_DEFAULTS then Some [] else None) Map.empty =
       (200, FeatureCollection [])"
  using GET_defaults [of "[''west'' \<mapsto> ''-73'', ''limit'' \<mapsto> ''100'']"
          "\<lambda>q. if q = WORLD_DEFAULTS then Some [] else None"]
    GET_defaults [of "[''limit'' \<mapsto> ''100'']" "\<lambda>q. if q = WORLD_DEFAULTS then Some [] else None"]
    GET_defaults [of "[''west'' \<mapsto> ''-73'']" "\<lambda>q. if q = WORLD_DEFAULTS then Some [] else None"]
  by simp

section \<open>Statistics after a successful fetch\<close>

lemma Math_max_Max:
  assumes "xs \<noteq> []"
  shows "Math_max xs = Some (Max (set xs))"
proof (cases xs)
  case Nil
  with assms show ?thesis by simp
next
  case (Cons x rest)
  with Max.set_eq_fold [of x rest] show ?thesis by simp
qed

text \<open>
  Claim C9, as the code has it. A fetch that ends with a feature collection
  always replaces the displayed data set. The statistics are recomputed from the
  collection (its length, and the largest flow in it) when the collection has at
  least one feature; on a collection with no feature the guard
  \<^verbatim>\<open>data.features.length > 0\<close> skips \<^verbatim>\<open>setStats\<close>, and the statistics stay what they
  were before.
\<close>

theorem stats_recomputed_when_nonempty:
  "flowData (fetchFlowDataInner_end (Body st (FeatureCollection fs)) s) =
     Some (FeatureCollection fs)
   \<and> (fs \<noteq> [] \<longrightarrow>
        stats (fetchFlowDataInner_end (Body st (FeatureCollection fs)) s) =
          \<lparr> count = length fs, maxFlow = Max (set (map streamflow_cms fs)) \<rparr>)
   \<and> stats (fetchFlowDataInner_end (Body st (FeatureCollection [])) s) = stats s"
  by (simp add: fetchFlowDataInner_end_def Let_def Math_max_Max)

theorem stats_recomputed_when_nonempty_witness:
  "stats (fetchFlowDataInner_end (Body 200 (FeatureCollection [featA, featB]))
            (initial_direct None)) = \<lparr> count = 2, maxFlow = 150 \<rparr>"
  using stats_recomputed_when_nonempty [of 200 "[featA, featB]" "initial_direct None"]
  by (simp add: featA_def featB_def)

text \<open>
  The claim as the spec states it fails on an empty response: after a cycle with
  one feature and a later successful cycle with none, the map shows no feature and
  the header still counts one stream with the flow of the earlier cycle.
\<close>

theorem empty_response_counterexample:
  "flowData (direct_run empty_events (initial_direct None)) = Some (FeatureCollection [])
   \<and> stats (direct_run empty_events (initial_direct None)) = \<lparr> count = 1, maxFlow = 150 \<rparr>
   \<and> count (stats (direct_run empty_events (initial_direct None))) \<noteq>
       length ([] :: FlowFeature list)
   \<and> header_direct (direct_run empty_events (initial_direct None)) = Streams 1"
  by (simp add: empty_events_def direct_run_def direct_step_def handleMoveEnd_def
      fetchFlowData_def debounced_call_def DEBOUNCE_MS_def elapse_def
      fetchFlowDataInner_begin_def fetchFlowDataInner_end_def initial_direct_def
      viewA_def viewB_def featA_def header_direct_def)

section \<open>Properties of the refresh scheduler\<close>

lemma REFRESH_INTERVAL_pos: "0 < REFRESH_INTERVAL"
  by (simp add: REFRESH_INTERVAL_def)

lemma tick_times_before: "t < due \<Longrightarrow> tick_times due t = []"
  by (simp add: tick_times_def)

lemma tick_times_from_mount:
  "tick_times (m + REFRESH_INTERVAL) (m + e) =
     map (\<lambda>k. m + k * REFRESH_INTERVAL) [1..<e div REFRESH_INTERVAL + 1]"
proof (cases "REFRESH_INTERVAL \<le> e")
  case False
  then have "e div REFRESH_INTERVAL = 0" by simp
  with False show ?thesis by (simp add: tick_times_def)
next
  case True
  then have n: "(m + e - (m + REFRESH_INTERVAL)) div REFRESH_INTERVAL + 1 = e div REFRESH_INTERVAL"
    using REFRESH_INTERVAL_pos by (simp add: le_div_geq)
  have "map (\<lambda>k. m + REFRESH_INTERVAL + k * REFRESH_INTERVAL) [0..<e div REFRESH_INTERVAL] =
        map ((\<lambda>k. m + k * REFRESH_INTERVAL) \<circ> Suc) [0..<e div REFRESH_INTERVAL]"
    by (simp add: add.assoc)
  also have "\<dots> = map (\<lambda>k. m + k * REFRESH_INTERVAL) (map Suc [0..<e div REFRESH_INTERVAL])"
    by (simp only: map_map)
  also have "\<dots> = map (\<lambda>k. m + k * REFRESH_INTERVAL) [1..<e div REFRESH_INTERVAL + 1]"
    by (simp only: map_Suc_upt) simp
  finally show ?thesis
    using True n by (simp add: tick_times_def)
qed

lemma ticks_fold_fields:
  "fetches (fold (\<lambda>tk st. fetchLiveData_begin (st\<lparr> clock := tk \<rparr>)) ts s) = fetches s @ ts"
  "listeners (fold (\<lambda>tk st. fetchLiveData_begin (st\<lparr> clock := tk \<rparr>)) ts s) = listeners s"
  "mapReady (fold (\<lambda>tk st. fetchLiveData_begin (st\<lparr> clock := tk \<rparr>)) ts s) = mapReady s"
  "surface (fold (\<lambda>tk st. fetchLiveData_begin (st\<lparr> clock := tk \<rparr>)) ts s) = surface s"
  by (induction ts arbitrary: s) (simp_all add: fetchLiveData_begin_def)

lemma elapse_live_fields:
  "fetches (elapse_live d s) =
     fetches s @ (case interval s of None \<Rightarrow> [] | Some due \<Rightarrow> tick_times due (clock s + d))"
  "clock (elapse_live d s) = clock s + d"
  "interval (elapse_live d s) =
     (case interval s of
        None \<Rightarrow> None
      | Some due \<Rightarrow> Some (due + length (tick_times due (clock s + d)) * REFRESH_INTERVAL))"
  "listeners (elapse_live d s) = listeners s"
  "mapReady (elapse_live d s) = mapReady s"
  "surface (elapse_live d s) = surface s"
  by (simp_all add: elapse_live_def Let_def ticks_fold_fields split: option.split)

lemma mount_fields:
  "fetches (mount s) = fetches s" "clock (mount s) = clock s"
  "interval (mount s) = Some (clock s + REFRESH_INTERVAL)"
  "listeners (mount s) = listeners s" "mapReady (mount s) = mapReady s"
  "surface (mount s) = surface s"
  by (simp_all add: mount_def)

lemma handleMapLoad_fields:
  "mapReady s \<Longrightarrow> fetches (handleMapLoad s) =
     (if hasSource (surface s) \<and> isSourceLoaded (surface s) then fetches s @ [clock s]
      else fetches s)"
  "clock (handleMapLoad s) = clock s"
  "interval (handleMapLoad s) = interval s"
  "mapReady s \<Longrightarrow> listeners (handleMapLoad s) = listeners s + 1"
  "mapReady (handleMapLoad s) = mapReady s"
  "surface (handleMapLoad s) = surface s"
  by (simp_all add: handleMapLoad_def Let_def fetchLiveData_begin_def)

lemma sourcedata_rivers_fields:
  "listeners s = 1 \<Longrightarrow> fetches (sourcedata ''rivers'' True s) = fetches s @ [clock s]"
  "listeners s = 1 \<Longrightarrow> clock (sourcedata ''rivers'' True s) = clock s"
  "listeners s = 1 \<Longrightarrow> interval (sourcedata ''rivers'' True s) = interval s"
  by (simp_all add: sourcedata_def Let_def fetchLiveData_begin_def)

lemma initial_overlay_scheduler:
  "fetches (initial_overlay surf) = []" "clock (initial_overlay surf) = 0"
  "interval (initial_overlay surf) = None" "listeners (initial_overlay surf) = 0"
  by (simp_all add: initial_overlay_def)

lemma overlay_run_snoc: "overlay_run (evs @ [ev]) s = overlay_step ev (overlay_run evs s)"
  by (simp add: overlay_run_def)

lemma overlay_step_simps:
  "overlay_step Mount s = mount s"
  "overlay_step MapLoad s = handleMapLoad s"
  "overlay_step (SourceData sid loaded) s = sourcedata sid loaded s"
  "overlay_step (ElapseLive d) s = elapse_live d s"
  "overlay_step Frame s = frame s"
  by (simp_all add: overlay_step_def)

text \<open>The scheduler's run up to the moment before the source reports ready.\<close>

lemma scheduler_before_ready:
  assumes early: "a + b < REFRESH_INTERVAL"
    and unloaded: "\<not> (hasSource surf \<and> isSourceLoaded surf)"
  shows "fetches (overlay_run [ElapseLive m, Mount, ElapseLive a, MapLoad, ElapseLive b]
                    (initial_overlay surf)) = []"
    and "clock (overlay_run [ElapseLive m, Mount, ElapseLive a, MapLoad, ElapseLive b]
                    (initial_overlay surf)) = m + a + b"
    and "interval (overlay_run [ElapseLive m, Mount, ElapseLive a, MapLoad, ElapseLive b]
                    (initial_overlay surf)) = Some (m + REFRESH_INTERVAL)"
    and "listeners (overlay_run [ElapseLive m, Mount, ElapseLive a, MapLoad, ElapseLive b]
                    (initial_overlay surf)) = 1"
proof -
  have t1: "tick_times (m + REFRESH_INTERVAL) (m + a) = []"
    using early by (simp add: tick_times_before)
  have t2: "tick_times (m + REFRESH_INTERVAL) (m + a + b) = []"
    using early by (simp add: tick_times_before)
  have ready: "mapReady (initial_overlay surf)" "surface (initial_overlay surf) = surf"
    by (simp_all add: initial_overlay_fields)
  show "fetches (overlay_run [ElapseLive m, Mount, ElapseLive a, MapLoad, ElapseLive b]
                    (initial_overlay surf)) = []"
    and "clock (overlay_run [ElapseLive m, Mount, ElapseLive a, MapLoad, ElapseLive b]
                    (initial_overlay surf)) = m + a + b"
    and "interval (overlay_run [ElapseLive m, Mount, ElapseLive a, MapLoad, ElapseLive b]
                    (initial_overlay surf)) = Some (m + REFRESH_INTERVAL)"
    and "listeners (overlay_run [ElapseLive m, Mount, ElapseLive a, MapLoad, ElapseLive b]
                    (initial_overlay surf)) = 1"
    using unloaded
    by (simp_all add: overlay_run_def overlay_step_simps elapse_live_fields mount_fields
        handleMapLoad_fields initial_overlay_scheduler ready t1 t2)
qed

lemma scheduler_after_ready:
  assumes early: "a + b < REFRESH_INTERVAL"
    and unloaded: "\<not> (hasSource surf \<and> isSourceLoaded surf)"
  shows "fetches (overlay_run [ElapseLive m, Mount, ElapseLive a, MapLoad, ElapseLive b,
                               SourceData ''rivers'' True, ElapseLive c] (initial_overlay surf)) =
           (m + a + b) # map (\<lambda>k. m + k * REFRESH_INTERVAL) [1..<(a + b + c) div REFRESH_INTERVAL + 1]"
proof -
  let ?pre = "overlay_run [ElapseLive m, Mount, ElapseLive a, MapLoad, ElapseLive b]
                (initial_overlay surf)"
  note pre = scheduler_before_ready [OF early unloaded, of m]
  have "overlay_run [ElapseLive m, Mount, ElapseLive a, MapLoad, ElapseLive b,
                     SourceData ''rivers'' True, ElapseLive c] (initial_overlay surf) =
        elapse_live c (sourcedata ''rivers'' True ?pre)"
    by (simp add: overlay_run_def overlay_step_simps)
  moreover have "tick_times (m + REFRESH_INTERVAL) (m + a + b + c) =
      map (\<lambda>k. m + k * REFRESH_INTERVAL) [1..<(a + b + c) div REFRESH_INTERVAL + 1]"
    using tick_times_from_mount [of m "a + b + c"] by (simp only: add.assoc)
  ultimately show ?thesis
    by (simp add: elapse_live_fields sourcedata_rivers_fields pre)
qed

lemma scheduler_tick_before_ready:
  assumes unloaded: "\<not> (hasSource surf \<and> isSourceLoaded surf)"
  shows "fetches (overlay_run [Mount, MapLoad, ElapseLive REFRESH_INTERVAL]
                    (initial_overlay surf)) = [REFRESH_INTERVAL]"
proof -
  have "tick_times REFRESH_INTERVAL REFRESH_INTERVAL = [REFRESH_INTERVAL]"
    by (simp add: tick_times_def)
  moreover have "mapReady (initial_overlay surf)" "surface (initial_overlay surf) = surf"
    by (simp_all add: initial_overlay_fields)
  ultimately show ?thesis
    using unloaded
    by (simp add: overlay_run_def overlay_step_simps elapse_live_fields mount_fields
        handleMapLoad_fields initial_overlay_scheduler)
qed

text \<open>
  The claim as the spec states it fails twice. With the component mounted at time
  0 and the source ready one second later, the second fetch is at 15 minutes after
  the mount (900000 ms), not 15 minutes after readiness (901000 ms). And when the
  source has not reported ready 15 minutes after the mount, the timer fetches all
  the same.
\<close>

theorem scheduler_counterexample:
  "fetches (overlay_run [ElapseLive 0, Mount, ElapseLive 0, MapLoad, ElapseLive 1000,
                         SourceData ''rivers'' True, ElapseLive 900000]
              (initial_overlay surface_unloaded)) = [1000, 900000]
   \<and> fetches (overlay_run [ElapseLive 0, Mount, ElapseLive 0, MapLoad, ElapseLive 1000,
                           SourceData ''rivers'' True, ElapseLive 900000]
                (initial_overlay surface_unloaded)) \<noteq> [1000, 1000 + REFRESH_INTERVAL]
   \<and> fetches (overlay_run [Mount, MapLoad, ElapseLive REFRESH_INTERVAL]
                (initial_overlay surface_unloaded)) = [900000]"
proof -
  have early: "(0 + 1000 :: nat) < REFRESH_INTERVAL" by (simp add: REFRESH_INTERVAL_def)
  have unloaded: "\<not> (hasSource surface_unloaded \<and> isSourceLoaded surface_unloaded)"
    by (simp add: surface_unloaded_def)
  have one: "[1..<Suc (Suc 0)] = [1]" by (simp add: upt_rec)
  from scheduler_after_ready [OF early unloaded, of 0 900000]
    scheduler_tick_before_ready [OF unloaded] one
  show ?thesis
    by (simp add: REFRESH_INTERVAL_def)
qed

lemma div_sub_mult:
  fixes x :: nat
  assumes "0 < q" "k * q \<le> x"
  shows "(x - k * q) div q = x div q - k"
proof -
  from assms(2) obtain y where x: "x = y + k * q"
    using le_Suc_ex [of "k * q" x] by (auto simp: add.commute)
  with assms(1) show ?thesis by simp
qed

lemma tick_map_shift:
  "map (\<lambda>k. m + (n + 1) * q + k * q) [0..<c] = map (\<lambda>k. m + k * (q::nat)) [n + 1..<c + (n + 1)]"
proof -
  have "[n + 1..<c + (n + 1)] = map (\<lambda>k. k + (n + 1)) [0..<c]"
    by (simp only: map_add_upt)
  then have "map (\<lambda>k. m + k * q) [n + 1..<c + (n + 1)] =
             map (\<lambda>k. m + (k + (n + 1)) * q) [0..<c]"
    by (simp only: map_map comp_def)
  also have "\<dots> = map (\<lambda>k. m + (n + 1) * q + k * q) [0..<c]"
    by (rule map_cong) (simp_all add: distrib_right)
  finally show ?thesis by simp
qed

lemma tick_times_general:
  "tick_times (m + (e div REFRESH_INTERVAL + 1) * REFRESH_INTERVAL) (m + e + d) =
     map (\<lambda>k. m + k * REFRESH_INTERVAL)
       [e div REFRESH_INTERVAL + 1..<(e + d) div REFRESH_INTERVAL + 1]"
proof -
  let ?I = REFRESH_INTERVAL
  let ?n0 = "e div ?I" and ?n1 = "(e + d) div ?I"
  have mono: "?n0 \<le> ?n1" by (rule div_le_mono) simp
  have due: "(m + (?n0 + 1) * ?I \<le> m + e + d) = (?n0 + 1 \<le> ?n1)"
  proof -
    have "(?n0 + 1 \<le> ?n1) = ((?n0 + 1) * ?I \<le> e + d)"
      using REFRESH_INTERVAL_pos by (rule less_eq_div_iff_mult_less_eq)
    then show ?thesis by (simp only: add.assoc add_le_cancel_left)
  qed
  show ?thesis
  proof (cases "?n0 + 1 \<le> ?n1")
    case False
    with mono have same: "?n1 = ?n0" by simp
    from False due have "\<not> m + (?n0 + 1) * ?I \<le> m + e + d" by simp
    then have "tick_times (m + (?n0 + 1) * ?I) (m + e + d) = []"
      by (simp only: tick_times_def if_False)
    then show ?thesis by (simp only: same upt_conv_Nil order_refl list.map)
  next
    case True
    with due have le': "m + (?n0 + 1) * ?I \<le> m + e + d" by simp
    from True have le: "(?n0 + 1) * ?I \<le> e + d"
      using REFRESH_INTERVAL_pos by (simp only: less_eq_div_iff_mult_less_eq)
    have "m + e + d - (m + (?n0 + 1) * ?I) = e + d - (?n0 + 1) * ?I"
      by (simp only: add.assoc diff_add_zero add_diff_cancel_left)
    then have "(m + e + d - (m + (?n0 + 1) * ?I)) div ?I = ?n1 - (?n0 + 1)"
      using div_sub_mult [OF REFRESH_INTERVAL_pos le] by (simp only:)
    with True have n: "(m + e + d - (m + (?n0 + 1) * ?I)) div ?I + 1 = ?n1 - ?n0"
      by arith
    have up: "?n1 - ?n0 + (?n0 + 1) = ?n1 + 1" using mono by arith
    have "tick_times (m + (?n0 + 1) * ?I) (m + e + d) =
            map (\<lambda>k. m + (?n0 + 1) * ?I + k * ?I) [0..<?n1 - ?n0]"
      using le' by (simp only: tick_times_def if_True n)
    also have "\<dots> = map (\<lambda>k. m + k * ?I) [?n0 + 1..<?n1 - ?n0 + (?n0 + 1)]"
      by (rule tick_map_shift)
    finally show ?thesis by (simp only: up)
  qed
qed

lemma ticks_join:
  assumes "p \<le> q"
  shows "map f [1..<p + 1] @ map f [p + 1..<q + 1] = map f [1..<q + (1::nat)]"
proof -
  have "[1..<q + 1] = [1..<p + 1] @ [p + 1..<q + 1]"
    using assms upt_add_eq_append [of 1 "p + 1" "q - p"] by simp
  then show ?thesis by simp
qed

text \<open>
  The timer, once set at time \<open>m\<close>: \<open>e\<close> milliseconds after, its next tick is due
  at the first multiple of the interval after \<open>e\<close>, and stays so as time passes.
\<close>

lemma elapse_running:
  assumes now: "clock s = m + e"
    and due: "interval s = Some (m + (e div REFRESH_INTERVAL + 1) * REFRESH_INTERVAL)"
  shows "fetches (elapse_live d s) =
           fetches s @ map (\<lambda>k. m + k * REFRESH_INTERVAL)
                         [e div REFRESH_INTERVAL + 1..<(e + d) div REFRESH_INTERVAL + 1]"
    and "clock (elapse_live d s) = m + (e + d)"
    and "interval (elapse_live d s) =
           Some (m + ((e + d) div REFRESH_INTERVAL + 1) * REFRESH_INTERVAL)"
proof -
  note ticks = tick_times_general [of m e d]
  have mono: "e div REFRESH_INTERVAL \<le> (e + d) div REFRESH_INTERVAL"
    by (rule div_le_mono) simp
  show "fetches (elapse_live d s) =
           fetches s @ map (\<lambda>k. m + k * REFRESH_INTERVAL)
                         [e div REFRESH_INTERVAL + 1..<(e + d) div REFRESH_INTERVAL + 1]"
    by (simp only: elapse_live_fields due now option.case ticks)
  show "clock (elapse_live d s) = m + (e + d)"
    by (simp add: elapse_live_fields now)
  have len: "length (tick_times (m + (e div REFRESH_INTERVAL + 1) * REFRESH_INTERVAL) (m + e + d)) =
      (e + d) div REFRESH_INTERVAL - e div REFRESH_INTERVAL"
    by (simp only: ticks length_map length_upt add_diff_cancel_right)
  have sum: "m + (e div REFRESH_INTERVAL + 1) * REFRESH_INTERVAL +
          ((e + d) div REFRESH_INTERVAL - e div REFRESH_INTERVAL) * REFRESH_INTERVAL =
        m + ((e + d) div REFRESH_INTERVAL + 1) * REFRESH_INTERVAL"
    using mono by (simp add: distrib_right [symmetric] del: mult_Suc_right)
  have "interval (elapse_live d s) =
      Some (m + (e div REFRESH_INTERVAL + 1) * REFRESH_INTERVAL +
            length (tick_times (m + (e div REFRESH_INTERVAL + 1) * REFRESH_INTERVAL) (m + e + d)) *
              REFRESH_INTERVAL)"
    by (simp only: elapse_live_fields due now option.case)
  then show "interval (elapse_live d s) =
           Some (m + ((e + d) div REFRESH_INTERVAL + 1) * REFRESH_INTERVAL)"
    by (simp only: len sum)
qed

lemma sourcedata_other_fields:
  assumes "\<not> (sourceId = ''rivers'' \<and> loaded)"
  shows "fetches (sourcedata sourceId loaded s) = fetches s"
    and "clock (sourcedata sourceId loaded s) = clock s"
    and "interval (sourcedata sourceId loaded s) = interval s"
    and "listeners (sourcedata sourceId loaded s) = listeners s"
  using assms by (auto simp: sourcedata_def Let_def)

lemma engine_events_fields:
  assumes "\<forall>(sourceId, loaded) \<in> set ns. \<not> (sourceId = ''rivers'' \<and> loaded)"
  shows "fetches (overlay_run (engine_events ns) s) = fetches s
    \<and> clock (overlay_run (engine_events ns) s) = clock s
    \<and> interval (overlay_run (engine_events ns) s) = interval s
    \<and> listeners (overlay_run (engine_events ns) s) = listeners s"
  using assms
proof (induction ns arbitrary: s)
  case Nil
  show ?case by (simp add: engine_events_def overlay_run_def)
next
  case (Cons n ns)
  obtain sid l where n: "n = (sid, l)" by (cases n)
  with Cons.prems have quiet: "\<not> (sid = ''rivers'' \<and> l)"
    and rest: "\<forall>(sourceId, loaded) \<in> set ns. \<not> (sourceId = ''rivers'' \<and> loaded)"
    by auto
  have "overlay_run (engine_events (n # ns)) s =
          overlay_run (engine_events ns) (sourcedata sid l s)"
    by (simp add: n engine_events_def overlay_run_def overlay_step_simps)
  with Cons.IH [OF rest, of "sourcedata sid l s"] sourcedata_other_fields [OF quiet, of s]
  show ?case by simp
qed

text \<open>
  The scheduler from the mount to the moment before the source reports ready,
  with engine events that do not report it ready in between.
\<close>

lemma scheduler_until_ready:
  assumes unloaded: "\<not> (hasSource surf \<and> isSourceLoaded surf)"
    and quiet: "\<forall>(sourceId, loaded) \<in> set ns. \<not> (sourceId = ''rivers'' \<and> loaded)"
  shows "fetches (overlay_run ([ElapseLive m, Mount, ElapseLive a, MapLoad] @ engine_events ns @
                    [ElapseLive b]) (initial_overlay surf)) =
           map (\<lambda>k. m + k * REFRESH_INTERVAL) [1..<(a + b) div REFRESH_INTERVAL + 1]"
    and "clock (overlay_run ([ElapseLive m, Mount, ElapseLive a, MapLoad] @ engine_events ns @
                    [ElapseLive b]) (initial_overlay surf)) = m + (a + b)"
    and "interval (overlay_run ([ElapseLive m, Mount, ElapseLive a, MapLoad] @ engine_events ns @
                    [ElapseLive b]) (initial_overlay surf)) =
           Some (m + ((a + b) div REFRESH_INTERVAL + 1) * REFRESH_INTERVAL)"
    and "listeners (overlay_run ([ElapseLive m, Mount, ElapseLive a, MapLoad] @ engine_events ns @
                    [ElapseLive b]) (initial_overlay surf)) = 1"
proof -
  let ?s1 = "mount (elapse_live m (initial_overlay surf))"
  let ?s2 = "elapse_live a ?s1"
  let ?s3 = "handleMapLoad ?s2"
  let ?s4 = "overlay_run (engine_events ns) ?s3"
  let ?s5 = "elapse_live b ?s4"
  have run: "overlay_run ([ElapseLive m, Mount, ElapseLive a, MapLoad] @ engine_events ns @
               [ElapseLive b]) (initial_overlay surf) = ?s5"
    by (simp add: overlay_run_append) (simp add: overlay_run_def overlay_step_simps)
  have s1: "clock ?s1 = m + 0"
    "interval ?s1 = Some (m + (0 div REFRESH_INTERVAL + 1) * REFRESH_INTERVAL)"
    "fetches ?s1 = []" "listeners ?s1 = 0" "mapReady ?s1" "surface ?s1 = surf"
    by (simp_all add: mount_fields elapse_live_fields initial_overlay_scheduler
        initial_overlay_fields)
  note e2 = elapse_running [OF s1(1) s1(2), of a]
  have s2: "clock ?s2 = m + a"
    "interval ?s2 = Some (m + (a div REFRESH_INTERVAL + 1) * REFRESH_INTERVAL)"
    "fetches ?s2 = map (\<lambda>k. m + k * REFRESH_INTERVAL) [1..<a div REFRESH_INTERVAL + 1]"
    "listeners ?s2 = 0" "mapReady ?s2" "surface ?s2 = surf"
    using e2 s1 by (simp_all add: elapse_live_fields)
  have s3: "clock ?s3 = m + a"
    "interval ?s3 = Some (m + (a div REFRESH_INTERVAL + 1) * REFRESH_INTERVAL)"
    "fetches ?s3 = map (\<lambda>k. m + k * REFRESH_INTERVAL) [1..<a div REFRESH_INTERVAL + 1]"
    "listeners ?s3 = 1"
    using s2 unloaded by (simp_all add: handleMapLoad_fields)
  note n4 = engine_events_fields [OF quiet, of ?s3]
  have s4: "clock ?s4 = m + a"
    "interval ?s4 = Some (m + (a div REFRESH_INTERVAL + 1) * REFRESH_INTERVAL)"
    "fetches ?s4 = map (\<lambda>k. m + k * REFRESH_INTERVAL) [1..<a div REFRESH_INTERVAL + 1]"
    "listeners ?s4 = 1"
    using n4 s3 by simp_all
  note e5 = elapse_running [OF s4(1) s4(2), of b]
  have mono: "a div REFRESH_INTERVAL \<le> (a + b) div REFRESH_INTERVAL"
    by (rule div_le_mono) simp
  have "fetches ?s5 =
      map (\<lambda>k. m + k * REFRESH_INTERVAL) [1..<a div REFRESH_INTERVAL + 1] @
      map (\<lambda>k. m + k * REFRESH_INTERVAL)
        [a div REFRESH_INTERVAL + 1..<(a + b) div REFRESH_INTERVAL + 1]"
    by (simp only: e5(1) s4(3))
  then show "fetches (overlay_run ([ElapseLive m, Mount, ElapseLive a, MapLoad] @ engine_events ns @
                    [ElapseLive b]) (initial_overlay surf)) =
           map (\<lambda>k. m + k * REFRESH_INTERVAL) [1..<(a + b) div REFRESH_INTERVAL + 1]"
    by (simp only: run ticks_join [OF mono])
  show "clock (overlay_run ([ElapseLive m, Mount, ElapseLive a, MapLoad] @ engine_events ns @
                    [ElapseLive b]) (initial_overlay surf)) = m + (a + b)"
    by (simp only: run e5(2))
  show "interval (overlay_run ([ElapseLive m, Mount, ElapseLive a, MapLoad] @ engine_events ns @
                    [ElapseLive b]) (initial_overlay surf)) =
           Some (m + ((a + b) div REFRESH_INTERVAL + 1) * REFRESH_INTERVAL)"
    by (simp only: run e5(3))
  show "listeners (overlay_run ([ElapseLive m, Mount, ElapseLive a, MapLoad] @ engine_events ns @
                    [ElapseLive b]) (initial_overlay surf)) = 1"
    by (simp only: run elapse_live_fields s4(4))
qed

lemma scheduler_loaded_at_load:
  assumes loaded: "hasSource surf \<and> isSourceLoaded surf"
  shows "fetches (overlay_run [ElapseLive m, Mount, ElapseLive a, MapLoad] (initial_overlay surf)) =
           map (\<lambda>k. m + k * REFRESH_INTERVAL) [1..<a div REFRESH_INTERVAL + 1] @ [m + a]"
proof -
  let ?s1 = "mount (elapse_live m (initial_overlay surf))"
  let ?s2 = "elapse_live a ?s1"
  have run: "overlay_run [ElapseLive m, Mount, ElapseLive a, MapLoad] (initial_overlay surf) =
               handleMapLoad ?s2"
    by (simp add: overlay_run_def overlay_step_simps)
  have s1: "clock ?s1 = m + 0"
    "interval ?s1 = Some (m + (0 div REFRESH_INTERVAL + 1) * REFRESH_INTERVAL)"
    "fetches ?s1 = []" "mapReady ?s1" "surface ?s1 = surf"
    by (simp_all add: mount_fields elapse_live_fields initial_overlay_scheduler
        initial_overlay_fields)
  note e2 = elapse_running [OF s1(1) s1(2), of a]
  have s2: "clock ?s2 = m + a"
    "fetches ?s2 = map (\<lambda>k. m + k * REFRESH_INTERVAL) [1..<a div REFRESH_INTERVAL + 1]"
    "mapReady ?s2" "surface ?s2 = surf"
    using e2 s1 by (simp_all add: elapse_live_fields)
  show ?thesis
    unfolding run using s2 loaded by (simp add: handleMapLoad_fields)
qed

text \<open>
  Claim C5, as the code has it. The interval timer is set by the mount effect, at
  the time \<open>m\<close> the component mounts, and ticks every 15 minutes from then on
  whatever the surface does. The map's load handler, \<open>a\<close> after the mount,
  registers the listener and fetches at once if the source is loaded already.
  Otherwise engine events that are for another source, or that do not report
  \<^verbatim>\<open>rivers\<close> loaded, cause no fetch; up to the time \<open>T0 = m + a + b\<close> at which the
  engine reports \<^verbatim>\<open>rivers\<close> loaded the only fetches are the timer's, at
  \<open>m + 15 min\<close>, \<open>m + 30 min\<close>, ... as far as they fall before \<open>T0\<close>: none at all when
  \<open>T0\<close> is less than 15 minutes after the mount. The report at \<open>T0\<close> causes a fetch
  at \<open>T0\<close>, and the timer's fetches go on at the multiples of 15 minutes counted
  from the mount, not from \<open>T0\<close>.
\<close>

theorem scheduler_timer_and_readiness:
  assumes unloaded: "\<not> (hasSource surf \<and> isSourceLoaded surf)"
    and quiet: "\<forall>(sourceId, loaded) \<in> set ns. \<not> (sourceId = ''rivers'' \<and> loaded)"
  shows
    "fetches (overlay_run ([ElapseLive m, Mount, ElapseLive a, MapLoad] @ engine_events ns @
                [ElapseLive b]) (initial_overlay surf)) =
       map (\<lambda>k. m + k * REFRESH_INTERVAL) [1..<(a + b) div REFRESH_INTERVAL + 1]
     \<and> (a + b < REFRESH_INTERVAL \<longrightarrow>
          fetches (overlay_run ([ElapseLive m, Mount, ElapseLive a, MapLoad] @ engine_events ns @
                     [ElapseLive b]) (initial_overlay surf)) = [])
     \<and> fetches (overlay_run ([ElapseLive m, Mount, ElapseLive a, MapLoad] @ engine_events ns @
                  [ElapseLive b, SourceData ''rivers'' True]) (initial_overlay surf)) =
         map (\<lambda>k. m + k * REFRESH_INTERVAL) [1..<(a + b) div REFRESH_INTERVAL + 1] @
         [m + (a + b)]
     \<and> fetches (overlay_run ([ElapseLive m, Mount, ElapseLive a, MapLoad] @ engine_events ns @
                  [ElapseLive b, SourceData ''rivers'' True, ElapseLive c])
                  (initial_overlay surf)) =
         map (\<lambda>k. m + k * REFRESH_INTERVAL) [1..<(a + b) div REFRESH_INTERVAL + 1] @
         [m + (a + b)] @
         map (\<lambda>k. m + k * REFRESH_INTERVAL)
           [(a + b) div REFRESH_INTERVAL + 1..<(a + b + c) div REFRESH_INTERVAL + 1]
     \<and> (hasSource surf' \<and> isSourceLoaded surf' \<longrightarrow>
          fetches (overlay_run [ElapseLive m, Mount, ElapseLive a, MapLoad]
                     (initial_overlay surf')) =
            map (\<lambda>k. m + k * REFRESH_INTERVAL) [1..<a div REFRESH_INTERVAL + 1] @ [m + a])"
proof -
  let ?pre = "[ElapseLive m, Mount, ElapseLive a, MapLoad] @ engine_events ns @ [ElapseLive b]"
  let ?p = "overlay_run ?pre (initial_overlay surf)"
  note p = scheduler_until_ready [OF unloaded quiet, of m a b]
  have none: "a + b < REFRESH_INTERVAL \<longrightarrow> fetches ?p = []"
  proof
    assume "a + b < REFRESH_INTERVAL"
    then have "(a + b) div REFRESH_INTERVAL = 0" by simp
    then have "map (\<lambda>k. m + k * REFRESH_INTERVAL) [1..<(a + b) div REFRESH_INTERVAL + 1] = []"
      by simp
    with p(1) show "fetches ?p = []" by (simp only:)
  qed
  let ?r = "sourcedata ''rivers'' True ?p"
  have run_r: "overlay_run ([ElapseLive m, Mount, ElapseLive a, MapLoad] @ engine_events ns @
                  [ElapseLive b, SourceData ''rivers'' True]) (initial_overlay surf) = ?r"
    using overlay_run_append [of ?pre "[SourceData ''rivers'' True]" "initial_overlay surf"]
    by (simp add: overlay_run_def overlay_step_simps)
  have run_e: "overlay_run ([ElapseLive m, Mount, ElapseLive a, MapLoad] @ engine_events ns @
                  [ElapseLive b, SourceData ''rivers'' True, ElapseLive c])
                  (initial_overlay surf) = elapse_live c ?r"
    using overlay_run_append [of ?pre "[SourceData ''rivers'' True, ElapseLive c]"
        "initial_overlay surf"]
    by (simp add: overlay_run_def overlay_step_simps)
  have r: "fetches ?r =
      map (\<lambda>k. m + k * REFRESH_INTERVAL) [1..<(a + b) div REFRESH_INTERVAL + 1] @ [m + (a + b)]"
    "clock ?r = m + (a + b)"
    "interval ?r = Some (m + ((a + b) div REFRESH_INTERVAL + 1) * REFRESH_INTERVAL)"
    by (simp_all only: sourcedata_rivers_fields [OF p(4)] p)
  have e: "fetches (elapse_live c ?r) =
      (map (\<lambda>k. m + k * REFRESH_INTERVAL) [1..<(a + b) div REFRESH_INTERVAL + 1] @ [m + (a + b)]) @
      map (\<lambda>k. m + k * REFRESH_INTERVAL)
        [(a + b) div REFRESH_INTERVAL + 1..<(a + b + c) div REFRESH_INTERVAL + 1]"
    by (simp only: elapse_running(1) [OF r(2) r(3), of c] r(1))
  have loaded: "hasSource surf' \<and> isSourceLoaded surf' \<longrightarrow>
          fetches (overlay_run [ElapseLive m, Mount, ElapseLive a, MapLoad]
                     (initial_overlay surf')) =
            map (\<lambda>k. m + k * REFRESH_INTERVAL) [1..<a div REFRESH_INTERVAL + 1] @ [m + a]"
    using scheduler_loaded_at_load [of surf' m a] by blast
  from p(1) none r(1) e loaded show ?thesis
    by (simp only: run_r run_e append_assoc)
qed

theorem scheduler_timer_and_readiness_witness:
  "fetches (overlay_run [ElapseLive 5, Mount, ElapseLive 10, MapLoad,
                         SourceData ''composite'' True, SourceData ''rivers'' False,
                         ElapseLive 1000] (initial_overlay surface_unloaded)) = []
   \<and> fetches (overlay_run [ElapseLive 5, Mount, ElapseLive 10, MapLoad,
                           SourceData ''composite'' True, SourceData ''rivers'' False,
                           ElapseLive 1000, SourceData ''rivers'' True, ElapseLive 1800000]
                (initial_overlay surface_unloaded)) = [1015, 900005, 1800005]
   \<and> fetches (overlay_run [ElapseLive 0, Mount, ElapseLive 0, MapLoad, ElapseLive 1000000,
                           SourceData ''rivers'' True, ElapseLive 800000]
                (initial_overlay surface_unloaded)) = [900000, 1000000, 1800000]
   \<and> fetches (overlay_run [ElapseLive 5, Mount, ElapseLive 10, MapLoad]
                (initial_overlay surface_all)) = [15]"
proof -
  have unloaded: "\<not> (hasSource surface_unloaded \<and> isSourceLoaded surface_unloaded)"
    by (simp add: surface_unloaded_def)
  have loaded: "hasSource surface_all \<and> isSourceLoaded surface_all"
    by (simp add: surface_all_def)
  have quiet: "\<forall>(sourceId, loaded) \<in> set [(''composite'', True), (''rivers'', False)].
                 \<not> (sourceId = ''rivers'' \<and> loaded)"
    "\<forall>(sourceId, loaded) \<in> set ([] :: (string \<times> bool) list). \<not> (sourceId = ''rivers'' \<and> loaded)"
    by simp_all
  have ranges: "[Suc 0..<3] = [1, 2]" "[Suc 0..<2] = [1]" "[Suc (Suc 0)..<3] = [2]"
    by (simp_all add: upt_rec)
  from scheduler_timer_and_readiness [OF unloaded quiet(1), of 5 10 1000 1800000 surface_all]
    scheduler_timer_and_readiness [OF unloaded quiet(2), of 0 0 1000000 800000 surface_all]
    loaded
  show ?thesis
    by (simp add: engine_events_def REFRESH_INTERVAL_def ranges)
qed

section \<open>Failed fetches\<close>














text \<open>
  The endpoint's failure response is a JSON document, and the direct-query
  component stores every JSON document as the displayed data set before it reads
  its features: after a successful cycle and a cycle answered with status 500,
  the data set shown before is gone.
\<close>

theorem server_error_replaces_data:
  "GET (\<lambda>q. None) searchParams = (500, ErrorObject ''Failed to fetch flow data'')
   \<and> flowData (direct_run server_error_events (initial_direct None)) =
       Some (ErrorObject ''Failed to fetch flow data'')
   \<and> stats (direct_run server_error_events (initial_direct None)) =
       \<lparr> count = 1, maxFlow = 150 \<rparr>
   \<and> header_direct (direct_run server_error_events (initial_direct None)) = Streams 1"
  by (simp add: server_error_events_def direct_run_def direct_step_def handleMoveEnd_def
      fetchFlowData_def debounced_call_def DEBOUNCE_MS_def elapse_def
      fetchFlowDataInner_begin_def fetchFlowDataInner_end_def initial_direct_def
      viewA_def viewB_def featA_def header_direct_def GET_def)

end
